theory Spec2Isabelle
  imports Main "HOL-Library.Sublist"
begin

section \<open>The component catalogue generator (automate.py)\<close>

text \<open>
  The script reads a JSON object mapping component names to raw field mappings, builds a
  validated \<open>CompModel\<close> for each, and writes one output directory per component.
  Everything the script does to the outside world is made explicit here: the file system,
  the HTTP responses, the UUID generator, the interpreter's remaining recursion depth and
  the clock are fields of a \<open>world\<close> record that every operation takes and returns.

  Library behaviour that the script relies on is modelled as follows.
  \<^item> pydantic (version 1 API, as imported by the script): fields are validated in
    declaration order; a missing required field, a type error, and a \<open>ValueError\<close>,
    \<open>TypeError\<close> or \<open>AssertionError\<close> raised by a validator are collected and reported
    together as one \<open>ValidationError\<close> after all fields have been visited; any other
    exception raised by a validator propagates at once; defaults are not validated; an
    explicit \<open>None\<close> for an optional field is passed to its validator, for a
    required field it is an error that is collected.
  \<^item> The file system is POSIX without symbolic links and without permission failures:
    a map from absolute, normalised locations (lists of names) to nodes. A path is
    resolved component by component, so that \<open>..\<close> and missing directories behave as
    they do on disk. A process whose working directory has been removed can no longer
    resolve relative paths, also when a directory of the same name is made again.
  \<^item> \<open>requests.get\<close> is a function of the URL; \<open>uuid.uuid4\<close> is a sequence of
    values that the model draws from.
  \<^item> \<open>assert\<close> statements are enabled.
\<close>

subsection \<open>Python values and exceptions\<close>

text \<open>
  A value produced by \<open>json.load\<close>. A number carries the text that Python's \<open>str()\<close>
  gives for it (that text is all the script ever uses of a number).
\<close>

datatype json =
    JNull
  | JBool bool
  | JNum string
  | JStr string
  | JList "json list"
  | JObj "(string \<times> json) list"

text \<open>
  The exceptions that can leave the script. \<open>OSError\<close> stands for all its subclasses
  (\<open>FileNotFoundError\<close>, \<open>FileExistsError\<close>, \<open>IsADirectoryError\<close>,
  \<open>NotADirectoryError\<close>, \<open>shutil.SameFileError\<close>); \<open>RequestException\<close> stands for
  the exceptions of \<open>requests\<close> that are not also \<open>ValueError\<close>s.
\<close>

datatype pyerr =
    ValidationError
  | TypeError
  | NameError
  | RecursionError
  | OSError
  | RequestException
  | AssertionError
  | AttributeError

subsection \<open>The tag vocabulary\<close>

datatype TagEnum =
    ForceFields | Assigners | Gromacs | Strategy | Tactic
  | Util | Simulators | MMSchema | Translators

fun tag_value :: "TagEnum \<Rightarrow> string" where
  "tag_value ForceFields = ''forcefields''"
| "tag_value Assigners = ''assigners''"
| "tag_value Gromacs = ''gromacs''"
| "tag_value Strategy = ''strategy''"
| "tag_value Tactic = ''tactic''"
| "tag_value Util = ''util''"
| "tag_value Simulators = ''simulators''"
| "tag_value MMSchema = ''mmschema''"
| "tag_value Translators = ''translators''"

fun tag_name :: "TagEnum \<Rightarrow> string" where
  "tag_name ForceFields = ''ForceFields''"
| "tag_name Assigners = ''Assigners''"
| "tag_name Gromacs = ''Gromacs''"
| "tag_name Strategy = ''Strategy''"
| "tag_name Tactic = ''Tactic''"
| "tag_name Util = ''Util''"
| "tag_name Simulators = ''Simulators''"
| "tag_name MMSchema = ''MMSchema''"
| "tag_name Translators = ''Translators''"

definition all_tags :: "TagEnum list" where
  "all_tags = [ForceFields, Assigners, Gromacs, Strategy, Tactic,
               Util, Simulators, MMSchema, Translators]"

text \<open>\<open>TagEnum(v)\<close>: the member whose value is \<open>v\<close>, if any.\<close>

definition TagEnum_of_value :: "string \<Rightarrow> TagEnum option" where
  "TagEnum_of_value s = find (\<lambda>t. tag_value t = s) all_tags"

subsection \<open>Strings and paths\<close>

text \<open>\<open>s.split(c)\<close> for a one-character separator: never the empty list.\<close>

fun split_on :: "char \<Rightarrow> string \<Rightarrow> string list" where
  "split_on c [] = [[]]"
| "split_on c (x # xs) =
     (if x = c then [] # split_on c xs
      else (case split_on c xs of
              [] \<Rightarrow> [[x]]
            | y # ys \<Rightarrow> (x # y) # ys))"

fun join_slash :: "string list \<Rightarrow> string" where
  "join_slash [] = []"
| "join_slash [x] = x"
| "join_slash (x # y # ys) = x @ ''/'' @ join_slash (y # ys)"

text \<open>
  A \<open>pathlib.PurePosixPath\<close>: whether it is anchored at the root, and its parts. The
  constructor drops empty parts and \<open>.\<close> parts and keeps \<open>..\<close> parts.
\<close>

datatype pypath = PyPath (is_abs: bool) (parts: "string list")

definition Path :: "string \<Rightarrow> pypath" where
  "Path s = PyPath (prefix ''/'' s)
                   (filter (\<lambda>c. c \<noteq> [] \<and> c \<noteq> ''.'') (split_on (CHR ''/'') s))"

text \<open>\<open>p / q\<close>\<close>

definition joinpath :: "pypath \<Rightarrow> pypath \<Rightarrow> pypath" where
  "joinpath p q = (if is_abs q then q else PyPath (is_abs p) (parts p @ parts q))"

text \<open>\<open>p.name\<close>\<close>

definition name_of :: "pypath \<Rightarrow> string" where
  "name_of p = (if parts p = [] then [] else last (parts p))"

text \<open>\<open>str(p)\<close>\<close>

definition path_str :: "pypath \<Rightarrow> string" where
  "path_str p =
     (if is_abs p then ''/'' @ join_slash (parts p)
      else if parts p = [] then ''.''
      else join_slash (parts p))"

text \<open>
  A path given to the operating system as a string: empty components vanish, \<open>.\<close> and
  \<open>..\<close> stay for the resolution to handle, and a trailing slash demands a directory
  (which is what a final \<open>.\<close> demands).
\<close>

definition os_path :: "string \<Rightarrow> pypath" where
  "os_path s = PyPath (prefix ''/'' s)
                 (filter (\<lambda>c. c \<noteq> []) (split_on (CHR ''/'') s)
                  @ (if s \<noteq> [] \<and> last s = CHR ''/'' then [''.''] else []))"

text \<open>\<open>os.path.basename(s)\<close>: what follows the last slash.\<close>

definition basename :: "string \<Rightarrow> string" where
  "basename s = last (split_on (CHR ''/'') s)"

text \<open>\<open>os.path.join(str(d), b)\<close> for a \<open>b\<close> that does not start with a slash.\<close>

definition os_join :: "pypath \<Rightarrow> string \<Rightarrow> pypath" where
  "os_join d b = PyPath (is_abs d) (parts d @ (if b = [] then [''.''] else [b]))"

subsection \<open>The world\<close>

datatype node = Dir | File string

datatype http_result =
    Response nat string
  | RaisesValueError
  | RaisesRequestException

datatype event =
    EvMkdir "string list"
  | EvRmtree "string list"
  | EvWrite "string list"

text \<open>
  \<open>fs\<close> maps a location to what is there. \<open>http\<close> gives, for a URL, the status and body
  of the final response of \<open>requests.get\<close>, or the exception it raises (a malformed URL
  raises a \<open>ValueError\<close> subclass). \<open>uuids\<close> is the sequence of values that
  \<open>str(uuid.uuid4())\<close> returns, \<open>drawn\<close> how many have been taken. \<open>stack_left\<close> is
  the number of nested calls of \<open>random_file\<close> the interpreter still allows.
  \<open>strptime_ok\<close> says for which strings \<open>datetime.strptime(v, "%Y-%m-%d")\<close> returns.
  \<open>today\<close> is \<open>date.today().strftime("%Y-%m-%d")\<close> at import time. \<open>trace\<close> records
  the operations on the file system that completed, oldest first (an \<open>rmtree\<close> that
  fails after it has emptied the directory leaves no entry). \<open>cwd_alive\<close> says that the
  working directory has not been removed since the process started.
\<close>

record world =
  cwd :: "string list"
  cwd_alive :: bool
  fs :: "string list \<Rightarrow> node option"
  http :: "string \<Rightarrow> http_result"
  uuids :: "nat \<Rightarrow> string"
  drawn :: nat
  stack_left :: nat
  strptime_ok :: "string \<Rightarrow> bool"
  today :: string
  trace :: "event list"

subsection \<open>File system operations\<close>

text \<open>
  Path resolution. Every component is looked up in a directory that must exist; \<open>..\<close>
  moves to the parent, which must be a directory too.
\<close>

fun walk :: "(string list \<Rightarrow> node option) \<Rightarrow> string list \<Rightarrow> string list \<Rightarrow> string list option" where
  "walk f cur [] = Some cur"
| "walk f cur (c # cs) =
     (if f cur \<noteq> Some Dir then None
      else if c = ''.'' then walk f cur cs
      else if c = ''..'' then
        (if f (butlast cur) = Some Dir then walk f (butlast cur) cs else None)
      else walk f (cur @ [c]) cs)"

definition resolve :: "world \<Rightarrow> pypath \<Rightarrow> string list option" where
  "resolve w p =
     (if is_abs p then walk (fs w) [] (parts p)
      else if cwd_alive w then walk (fs w) (cwd w) (parts p)
      else None)"

definition is_dir :: "world \<Rightarrow> pypath \<Rightarrow> bool" where
  "is_dir w p = (case resolve w p of None \<Rightarrow> False | Some q \<Rightarrow> fs w q = Some Dir)"

definition is_file :: "world \<Rightarrow> pypath \<Rightarrow> bool" where
  "is_file w p =
     (case resolve w p of
        None \<Rightarrow> False
      | Some q \<Rightarrow> (case fs w q of Some (File d) \<Rightarrow> True | _ \<Rightarrow> False))"

text \<open>\<open>Path.mkdir()\<close>: the parent must exist, the target must not.\<close>

definition mkdir :: "world \<Rightarrow> pypath \<Rightarrow> (pyerr + unit) \<times> world" where
  "mkdir w p =
     (case resolve w p of
        None \<Rightarrow> (Inl OSError, w)
      | Some q \<Rightarrow>
          if parts p = [] \<or> fs w q \<noteq> None then (Inl OSError, w)
          else (Inr (), w\<lparr>fs := (fs w)(q \<mapsto> Dir), trace := trace w @ [EvMkdir q]\<rparr>))"

text \<open>
  \<open>shutil.rmtree\<close>: removes everything below the directory, then the directory itself
  with \<open>os.rmdir\<close>, which refuses the root, \<open>.\<close> and a path ending in \<open>..\<close>.
  Removing the working directory, or a directory above it, leaves the process without
  one.
\<close>

definition rmtree :: "world \<Rightarrow> pypath \<Rightarrow> (pyerr + unit) \<times> world" where
  "rmtree w p =
     (case resolve w p of
        None \<Rightarrow> (Inl OSError, w)
      | Some q \<Rightarrow>
          if fs w q \<noteq> Some Dir then (Inl OSError, w)
          else
            (let emptied = (\<lambda>x. if strict_prefix q x then None else fs w x) in
             if q = [] \<or> parts p = [] \<or> last (parts p) = ''..''
             then (Inl OSError, w\<lparr>fs := emptied,
                                   cwd_alive := cwd_alive w \<and> \<not> strict_prefix q (cwd w)\<rparr>)
             else (Inr (), w\<lparr>fs := emptied(q := None),
                              cwd_alive := cwd_alive w \<and> \<not> prefix q (cwd w),
                              trace := trace w @ [EvRmtree q]\<rparr>)))"

text \<open>\<open>open(p, "w")\<close> or \<open>open(p, "wb")\<close>, writing \<open>d\<close>, and closing.\<close>

definition write_file :: "world \<Rightarrow> pypath \<Rightarrow> string \<Rightarrow> (pyerr + unit) \<times> world" where
  "write_file w p d =
     (case resolve w p of
        None \<Rightarrow> (Inl OSError, w)
      | Some q \<Rightarrow>
          if parts p = [] \<or> fs w q = Some Dir then (Inl OSError, w)
          else (Inr (), w\<lparr>fs := (fs w)(q \<mapsto> File d), trace := trace w @ [EvWrite q]\<rparr>))"

definition read_file :: "world \<Rightarrow> pypath \<Rightarrow> pyerr + string" where
  "read_file w p =
     (case resolve w p of
        None \<Rightarrow> Inl OSError
      | Some q \<Rightarrow> (case fs w q of Some (File d) \<Rightarrow> Inr d | _ \<Rightarrow> Inl OSError))"

text \<open>
  \<open>shutil.copy(src, dst)\<close> with \<open>src\<close> a string and \<open>dst\<close> a path: into the directory
  \<open>dst\<close> under the base name of \<open>src\<close>; the same file on both sides is refused; the
  source is opened before the destination.
\<close>

definition shutil_copy :: "world \<Rightarrow> string \<Rightarrow> pypath \<Rightarrow> (pyerr + unit) \<times> world" where
  "shutil_copy w src dst =
     (let dst' = (if is_dir w dst then os_join dst (basename src) else dst);
          s = os_path src
      in if src = [] then (Inl OSError, w)
         else if resolve w s \<noteq> None \<and> resolve w s = resolve w dst'
                 \<and> fs w (the (resolve w s)) \<noteq> None then (Inl OSError, w)
         else (case read_file w s of
                 Inl e \<Rightarrow> (Inl e, w)
               | Inr d \<Rightarrow> write_file w dst' d))"

subsection \<open>random_file\<close>

text \<open>
  The first argument is the number of nested calls still allowed; Python raises
  \<open>RecursionError\<close> when it is used up. Each call draws a fresh UUID. The \<open>path\<close>
  argument is given as a string (the call site passes a \<open>Path\<close>, which \<open>Path(path)\<close>
  leaves as it is, and which is truthy like a non-empty string).
\<close>

fun random_file :: "nat \<Rightarrow> world \<Rightarrow> string \<Rightarrow> string \<Rightarrow> bool \<Rightarrow> (pyerr + pypath) \<times> world" where
  "random_file 0 w sfx path unique = (Inl RecursionError, w)"
| "random_file (Suc k) w sfx path unique =
     (let fname = uuids w (drawn w) @ sfx;
          w1 = w\<lparr>drawn := Suc (drawn w)\<rparr>;
          fpath = (if path \<noteq> [] then joinpath (Path path) (Path fname) else Path fname)
      in if unique \<and> is_file w1 fpath then random_file k w1 sfx path unique
         else (Inr fpath, w1))"

subsection \<open>CompModel and its validators\<close>

record CompModel =
  title :: string
  link :: string
  tags :: "TagEnum list"
  summary :: string
  developer :: string
  date :: "string option"
  image_f :: "string option"

definition declared_fields :: "string list" where
  "declared_fields =
     [''title'', ''link'', ''tags'', ''summary'', ''developer'', ''date'', ''image'']"

text \<open>Sequencing of operations that may raise.\<close>

definition then_do ::
  "(pyerr + 'a) \<times> world \<Rightarrow> ('a \<Rightarrow> world \<Rightarrow> (pyerr + 'b) \<times> world) \<Rightarrow> (pyerr + 'b) \<times> world" where
  "then_do m k = (case m of (Inl e, w) \<Rightarrow> (Inl e, w) | (Inr x, w) \<Rightarrow> k x w)"

text \<open>
  pydantic's coercion to \<open>str\<close>: strings pass, numbers and booleans (which are \<open>int\<close>s)
  become their \<open>str()\<close>, everything else is an error.
\<close>

fun str_validator :: "json \<Rightarrow> string option" where
  "str_validator (JStr s) = Some s"
| "str_validator (JNum t) = Some t"
| "str_validator (JBool b) = Some (if b then ''True'' else ''False'')"
| "str_validator _ = None"

fun tag_of_json :: "json \<Rightarrow> TagEnum option" where
  "tag_of_json (JStr s) = TagEnum_of_value s"
| "tag_of_json _ = None"

text \<open>
  A validator's result: \<open>Inr (Some v)\<close> is the accepted value, \<open>Inr None\<close> an error
  that pydantic collects, \<open>Inl e\<close> an exception that propagates.
\<close>

definition valid_link :: "world \<Rightarrow> string \<Rightarrow> pyerr + string option" where
  "valid_link w v =
     (case http w v of
        RaisesValueError \<Rightarrow> Inr None
      | RaisesRequestException \<Rightarrow> Inl RequestException
      | Response status body \<Rightarrow> if status = 200 then Inr (Some v) else Inr None)"

text \<open>
  The validator of \<open>image\<close>, called with a string or with \<open>None\<close>. On \<open>None\<close> the
  call \<open>v.startswith\<close> raises \<open>AttributeError\<close>. The failure message of the last
  \<open>assert\<close> names the undefined variable \<open>p\<close>, so a failing assertion raises
  \<open>NameError\<close> while building its message. \<open>pfile.absolute()\<close> asks for the working
  directory, which exists at that point: the temporary directory has just been found
  or made through it.
\<close>

definition valid_image :: "world \<Rightarrow> string option \<Rightarrow> (pyerr + string option) \<times> world" where
  "valid_image w v0 =
     (case v0 of None \<Rightarrow> (Inl AttributeError, w) | Some v \<Rightarrow>
      if prefix ''http'' v then
        (let ext = last (split_on (CHR ''.'') v) in
         case http w v of
           RaisesValueError \<Rightarrow> (Inr None, w)
         | RaisesRequestException \<Rightarrow> (Inl RequestException, w)
         | Response status body \<Rightarrow>
             if status \<noteq> 200 then (Inr None, w)
             else
               (let tmpdir = Path ''static/components/tmp'' in
                then_do (if \<not> is_dir w tmpdir then mkdir w tmpdir else (Inr (), w))
                  (\<lambda>_ w1.
                then_do (random_file (stack_left w1) w1 (''.'' @ ext) ''static/components/tmp'' True)
                  (\<lambda>pfile w2.
                let v' = path_str (if is_abs pfile then pfile
                                    else PyPath True (cwd w2 @ parts pfile)) in
                then_do (write_file w2 (os_path v') body)
                  (\<lambda>_ w3.
                if is_file w3 pfile then (Inr (Some v'), w3) else (Inl NameError, w3))))))
      else
        (let pfile = Path v in
         if is_file w pfile then (Inr (Some v), w) else (Inl NameError, w)))"

text \<open>
  The validator of \<open>date\<close>, called with a string or with \<open>None\<close>. On \<open>None\<close>,
  \<open>strptime\<close> raises \<open>TypeError\<close>, which the \<open>except ValueError\<close> clause lets
  through and pydantic collects.
\<close>

definition valid_time :: "world \<Rightarrow> string option \<Rightarrow> string option" where
  "valid_time w v0 =
     (case v0 of None \<Rightarrow> None | Some v \<Rightarrow> if strptime_ok w v then Some v else None)"

text \<open>
  The fields, one by one. \<open>None\<close> is a collected error. For the two optional fields
  the value itself is optional, so \<open>Some None\<close> is the accepted value \<open>None\<close>
  (which only the default of \<open>image\<close> is: an explicit \<open>null\<close> goes to the validator).
\<close>

definition field_str :: "(string \<times> json) list \<Rightarrow> string \<Rightarrow> string option" where
  "field_str input k = (case map_of input k of None \<Rightarrow> None | Some j \<Rightarrow> str_validator j)"

definition field_link :: "world \<Rightarrow> (string \<times> json) list \<Rightarrow> pyerr + string option" where
  "field_link w input =
     (case map_of input ''link'' of
        None \<Rightarrow> Inr None
      | Some j \<Rightarrow> (case str_validator j of None \<Rightarrow> Inr None | Some s \<Rightarrow> valid_link w s))"

definition field_tags :: "(string \<times> json) list \<Rightarrow> TagEnum list option" where
  "field_tags input =
     (case map_of input ''tags'' of
        Some (JList items) \<Rightarrow> those (map tag_of_json items)
      | _ \<Rightarrow> None)"

definition field_date :: "world \<Rightarrow> (string \<times> json) list \<Rightarrow> string option option" where
  "field_date w input =
     (case map_of input ''date'' of
        None \<Rightarrow> Some (Some (today w))
      | Some JNull \<Rightarrow>
          (case valid_time w None of None \<Rightarrow> None | Some v \<Rightarrow> Some (Some v))
      | Some j \<Rightarrow>
          (case str_validator j of
             None \<Rightarrow> None
           | Some s \<Rightarrow>
               (case valid_time w (Some s) of None \<Rightarrow> None | Some v \<Rightarrow> Some (Some v))))"

definition field_image ::
  "world \<Rightarrow> (string \<times> json) list \<Rightarrow> (pyerr + string option option) \<times> world" where
  "field_image w input =
     (case map_of input ''image'' of
        None \<Rightarrow> (Inr (Some None), w)
      | Some j \<Rightarrow>
          (case (if j = JNull then Some None else map_option Some (str_validator j)) of
             None \<Rightarrow> (Inr None, w)
           | Some v0 \<Rightarrow>
               (case valid_image w v0 of
                  (Inl e, w') \<Rightarrow> (Inl e, w')
                | (Inr None, w') \<Rightarrow> (Inr None, w')
                | (Inr (Some v), w') \<Rightarrow> (Inr (Some (Some v)), w'))))"

definition has_extra :: "(string \<times> json) list \<Rightarrow> bool" where
  "has_extra input = list_ex (\<lambda>k. k \<notin> set declared_fields) (map fst input)"

text \<open>
  \<open>BaseModel.__init__\<close> on the keyword arguments \<open>input\<close>: all fields in declaration
  order, then the check for undeclared names (\<open>extra = "forbid"\<close>).
\<close>

definition validate_model :: "world \<Rightarrow> (string \<times> json) list \<Rightarrow> (pyerr + CompModel) \<times> world" where
  "validate_model w input =
     (let t = field_str input ''title'' in
      case field_link w input of
        Inl e \<Rightarrow> (Inl e, w)
      | Inr l \<Rightarrow>
          (let tg = field_tags input;
               s = field_str input ''summary'';
               d = field_str input ''developer'';
               dt = field_date w input
           in case field_image w input of
                (Inl e, w') \<Rightarrow> (Inl e, w')
              | (Inr im, w') \<Rightarrow>
                  (case (t, l, tg, s, d, dt, im) of
                     (Some t', Some l', Some tg', Some s', Some d', Some dt', Some im') \<Rightarrow>
                       if has_extra input then (Inl ValidationError, w')
                       else (Inr \<lparr>title = t', link = l', tags = tg', summary = s',
                                  developer = d', date = dt', image_f = im'\<rparr>, w')
                   | _ \<Rightarrow> (Inl ValidationError, w'))))"

text \<open>
  The call \<open>CompModel(title=comp_name, **comp)\<close>: Python itself raises \<open>TypeError\<close>
  when the raw value \<open>comp\<close> is not a mapping, when it repeats the keyword \<open>title\<close>,
  and when it has the key \<open>__pydantic_self__\<close>, the name of the first parameter of
  \<open>BaseModel.__init__\<close>; no validator has run by then.
\<close>

definition CompModel_call :: "world \<Rightarrow> string \<Rightarrow> json \<Rightarrow> (pyerr + CompModel) \<times> world" where
  "CompModel_call w comp_name raw =
     (case raw of
        JObj kvs \<Rightarrow>
          if ''title'' \<in> set (map fst kvs) \<or> ''__pydantic_self__'' \<in> set (map fst kvs)
          then (Inl TypeError, w)
          else validate_model w ((''title'', JStr comp_name) # kvs)
      | _ \<Rightarrow> (Inl TypeError, w))"

subsection \<open>Rendering\<close>

definition truthy :: "string option \<Rightarrow> bool" where
  "truthy v = (case v of None \<Rightarrow> False | Some s \<Rightarrow> s \<noteq> [])"

text \<open>\<open>CompModel.dict\<close>: all fields, the image reduced to its file name.\<close>

definition dict :: "CompModel \<Rightarrow> CompModel" where
  "dict m = (if truthy (image_f m)
             then m\<lparr>image_f := Some (name_of (Path (the (image_f m))))\<rparr>
             else m)"

fun join_comma :: "string list \<Rightarrow> string" where
  "join_comma [] = []"
| "join_comma [x] = x"
| "join_comma (x # y # ys) = x @ '','' @ join_comma (y # ys)"

definition tags_text :: "TagEnum list \<Rightarrow> string" where
  "tags_text ts = ''['' @ join_comma (map tag_name ts) @ '']''"

text \<open>What \<open>str.format\<close> inserts for a value that is a string or \<open>None\<close>.\<close>

definition py_format :: "string option \<Rightarrow> string" where
  "py_format v = (case v of None \<Rightarrow> ''None'' | Some s \<Rightarrow> s)"

text \<open>The variable \<open>text\<close> of the loop body.\<close>

definition front_matter :: "CompModel \<Rightarrow> string" where
  "front_matter m =
     (let data = dict m in
      if truthy (image_f m) then
        ''title: '' @ title data @ ''\<newline>date: '' @ py_format (date data)
        @ ''\<newline>draft: true\<newline>hideLastModified: true\<newline>showInMenu: false\<newline>summaryImage: ''
        @ py_format (image_f data)
        @ ''\<newline>summary: '' @ summary data @ ''\<newline>link: '' @ link data
        @ ''\<newline>tags: '' @ tags_text (tags data) @ ''\<newline>''
      else
        ''title: '' @ title data @ ''\<newline>date: '' @ py_format (date data)
        @ ''\<newline>draft: true\<newline>hideLastModified: true\<newline>showInMenu: false\<newline>summary: ''
        @ summary data @ ''\<newline>link: '' @ link data
        @ ''\<newline>tags: '' @ tags_text (tags data) @ ''\<newline>'')"

definition index_md :: "CompModel \<Rightarrow> string" where
  "index_md m = ''---\<newline>'' @ front_matter m @ ''---''"

subsection \<open>The main loop\<close>

text \<open>
  The writer: everything the loop body does after the record has been built.
\<close>

definition writer :: "world \<Rightarrow> CompModel \<Rightarrow> (pyerr + unit) \<times> world" where
  "writer w1 m =
     (let cpath = joinpath (Path ''content/components'') (Path (title m)) in
      then_do (if is_dir w1 cpath then rmtree w1 cpath else (Inr (), w1))
        (\<lambda>_ w2.
      then_do (mkdir w2 cpath)
        (\<lambda>_ w3.
      then_do (if truthy (image_f m) then shutil_copy w3 (the (image_f m)) cpath
               else (Inr (), w3))
        (\<lambda>_ w4.
      then_do (write_file w4 (joinpath cpath (Path ''index.md'')) (index_md m))
        (\<lambda>_ w5.
      let tmpdir = Path ''static/components/tmp'' in
      if is_dir w5 tmpdir then rmtree w5 tmpdir else (Inr (), w5))))))"

definition loop_body :: "world \<Rightarrow> string \<times> json \<Rightarrow> (pyerr + unit) \<times> world" where
  "loop_body w c =
     then_do (CompModel_call w (fst c) (snd c)) (\<lambda>m w1. writer w1 m)"

fun main_loop :: "world \<Rightarrow> (string \<times> json) list \<Rightarrow> (pyerr + unit) \<times> world" where
  "main_loop w [] = (Inr (), w)"
| "main_loop w (c # cs) =
     (case loop_body w c of
        (Inl e, w') \<Rightarrow> (Inl e, w')
      | (Inr u, w') \<Rightarrow> main_loop w' cs)"

text \<open>
  The script from the point where \<open>data.json\<close> has been read: \<open>items\<close> is the loaded
  object in its iteration order.
\<close>

definition main :: "world \<Rightarrow> (string \<times> json) list \<Rightarrow> (pyerr + unit) \<times> world" where
  "main w items =
     (if is_dir w (Path ''content/components'') then main_loop w items
      else (Inl AssertionError, w))"

section \<open>Property vocabulary and example inputs\<close>

text \<open>The values of the tag enumeration.\<close>

definition vocabulary :: "string list" where
  "vocabulary = map tag_value all_tags"


text \<open>
  A small world: the working directory \<open>/w\<close> holds empty \<open>content/components\<close> and
  \<open>static/components\<close> directories, every URL answers 200, and the UUID generator
  always returns the same value.
\<close>

definition example_fs :: "string list \<Rightarrow> node option" where
  "example_fs p =
     (if p \<in> set [[], [''w''], [''w'', ''content''], [''w'', ''content'', ''components''],
                   [''w'', ''static''], [''w'', ''static'', ''components'']]
      then Some Dir else None)"

definition example_world :: world where
  "example_world =
     \<lparr>cwd = [''w''], cwd_alive = True, fs = example_fs, http = (\<lambda>u. Response 200 ''PNG''),
      uuids = (\<lambda>n. ''00000000-0000-4000-8000-000000000000''), drawn = 0,
      stack_left = 900, strptime_ok = (\<lambda>s. True), today = ''2021-06-01'', trace = []\<rparr>"

definition record_with_title_key :: "(string \<times> json) list" where
  "record_with_title_key = [(''title'', JStr ''Bar'')]"



definition record_with_bad_tag :: "(string \<times> json) list" where
  "record_with_bad_tag =
     [(''link'', JStr ''https://example.com''), (''tags'', JList [JStr ''util'', JStr ''Util'']),
      (''summary'', JStr ''s''), (''developer'', JStr ''d'')]"

definition record_with_missing_image :: "(string \<times> json) list" where
  "record_with_missing_image =
     [(''link'', JStr ''https://example.com''), (''tags'', JList [JStr ''util'']),
      (''summary'', JStr ''s''), (''developer'', JStr ''d''), (''image'', JStr ''logo.png'')]"

definition record_with_extensionless_url :: "(string \<times> json) list" where
  "record_with_extensionless_url =
     [(''link'', JStr ''https://example.com''), (''tags'', JList [JStr ''util'']),
      (''summary'', JStr ''s''), (''developer'', JStr ''d''),
      (''image'', JStr ''https://example.com/pic'')]"

definition record_without_summary :: "(string \<times> json) list" where
  "record_without_summary =
     [(''link'', JStr ''https://example.com''), (''tags'', JList [JStr ''util'']),
      (''developer'', JStr ''d'')]"

text \<open>The path that \<open>random_file\<close> builds from the UUID \<open>u\<close>.\<close>

definition candidate :: "string \<Rightarrow> string \<Rightarrow> string \<Rightarrow> pypath" where
  "candidate path sfx u =
     (if path \<noteq> [] then joinpath (Path path) (Path (u @ sfx)) else Path (u @ sfx))"


text \<open>The lines of a text, and whether one of them starts with the key \<open>summaryImage:\<close>.\<close>

definition lines_of :: "string \<Rightarrow> string list" where
  "lines_of s = split_on (CHR ''\<newline>'') s"

definition has_summaryImage_line :: "string \<Rightarrow> bool" where
  "has_summaryImage_line s = list_ex (prefix ''summaryImage:'') (lines_of s)"

text \<open>A value has, after its first line, a line that starts with \<open>summaryImage:\<close>.\<close>

definition carries_summaryImage_line :: "string \<Rightarrow> bool" where
  "carries_summaryImage_line v = list_ex (prefix ''summaryImage:'') (tl (lines_of v))"

text \<open>Each line followed by a newline.\<close>

definition unlines :: "string list \<Rightarrow> string" where
  "unlines ls = concat (map (\<lambda>l. l @ ''\<newline>'') ls)"

text \<open>A record without image whose summary has two lines, and the record built from it.\<close>

definition record_with_multiline_summary :: "(string \<times> json) list" where
  "record_with_multiline_summary =
     [(''link'', JStr ''https://example.com''), (''tags'', JList [JStr ''util'']),
      (''summary'', JStr ''two lines\<newline>summaryImage: x.png''), (''developer'', JStr ''d'')]"

definition multiline_model :: CompModel where
  "multiline_model =
     \<lparr>title = ''Foo'', link = ''https://example.com'', tags = [Util],
      summary = ''two lines\<newline>summaryImage: x.png'', developer = ''d'',
      date = Some ''2021-06-01'', image_f = None\<rparr>"

text \<open>
  A world with a local image whose file name has a newline in it, a record with that
  image, and the record built from it.
\<close>

definition newline_name_world :: world where
  "newline_name_world =
     example_world\<lparr>fs := example_fs([''w'', ''static'', ''components'',
                                          ''logo\<newline>summary: x.png''] \<mapsto> File ''PNG'')\<rparr>"

definition record_with_newline_image :: "(string \<times> json) list" where
  "record_with_newline_image =
     [(''link'', JStr ''https://example.com''), (''tags'', JList [JStr ''util'']),
      (''summary'', JStr ''s''), (''developer'', JStr ''d''),
      (''image'', JStr ''static/components/logo\<newline>summary: x.png'')]"

definition newline_image_model :: CompModel where
  "newline_image_model =
     \<lparr>title = ''Foo'', link = ''https://example.com'', tags = [Util],
      summary = ''s'', developer = ''d'', date = Some ''2021-06-01'',
      image_f = Some ''static/components/logo\<newline>summary: x.png''\<rparr>"

text \<open>A record with a local image, and the same record without.\<close>

definition model_with_image :: CompModel where
  "model_with_image =
     \<lparr>title = ''Foo'', link = ''https://example.com'', tags = [Util, Gromacs],
      summary = ''s'', developer = ''d'',
      date = Some ''2021-06-01'', image_f = Some ''static/components/logo.png''\<rparr>"

definition model_without_image :: CompModel where
  "model_without_image = model_with_image\<lparr>image_f := None\<rparr>"

text \<open>
  Where a path leads when every directory on the way exists: \<open>walk\<close> without the
  look-ups.
\<close>

fun lex :: "string list \<Rightarrow> string list \<Rightarrow> string list" where
  "lex cur [] = cur"
| "lex cur (c # cs) =
     (if c = ''.'' then lex cur cs
      else if c = ''..'' then lex (butlast cur) cs
      else lex (cur @ [c]) cs)"

text \<open>The output directory \<open>cpath\<close> of a record, as the writer computes it.\<close>

definition cpath_of :: "CompModel \<Rightarrow> pypath" where
  "cpath_of m = joinpath (Path ''content/components'') (Path (title m))"

text \<open>The location of \<open>static/components/tmp\<close>.\<close>

definition tmp_loc :: "world \<Rightarrow> string list" where
  "tmp_loc w = cwd w @ [''static'', ''components'', ''tmp'']"

text \<open>
  The example world after an earlier run: \<open>content/components/Foo\<close> exists and holds
  a file, and there is a local image.
\<close>

definition rerun_fs :: "string list \<Rightarrow> node option" where
  "rerun_fs p =
     (if p = [''w'', ''content'', ''components'', ''Foo''] then Some Dir
      else if p = [''w'', ''content'', ''components'', ''Foo'', ''old.md''] then Some (File ''old'')
      else if p = [''w'', ''static'', ''components'', ''logo.png''] then Some (File ''PNG'')
      else example_fs p)"

definition rerun_world :: world where
  "rerun_world = example_world\<lparr>fs := rerun_fs\<rparr>"

text \<open>Two components with a remote image each.\<close>

definition record_with_png_url :: "(string \<times> json) list" where
  "record_with_png_url =
     [(''link'', JStr ''https://example.com''), (''tags'', JList [JStr ''util'']),
      (''summary'', JStr ''s''), (''developer'', JStr ''d''),
      (''image'', JStr ''https://example.com/pic.png'')]"

definition two_components :: "(string \<times> json) list" where
  "two_components = [(''Foo'', JObj record_with_png_url), (''Bar'', JObj record_with_png_url)]"




text \<open>
  A change inside the temporary directory at \<open>T\<close>: creating that directory, or writing
  a file in it.
\<close>

fun tmp_event :: "string list \<Rightarrow> event \<Rightarrow> bool" where
  "tmp_event T (EvMkdir q) = (q = T)"
| "tmp_event T (EvWrite q) = prefix T q"
| "tmp_event T (EvRmtree q) = False"

text \<open>
  \<open>w'\<close> differs from \<open>w\<close> only inside the temporary directory: everything outside it
  is as it was, and the changes made since are creations of that directory and writes
  into it.
\<close>

definition tmp_only :: "world \<Rightarrow> world \<Rightarrow> bool" where
  "tmp_only w w' =
     (cwd w' = cwd w \<and> uuids w' = uuids w
      \<and> (\<forall>q. \<not> prefix (tmp_loc w) q \<longrightarrow> fs w' q = fs w q)
      \<and> (\<exists>evs. trace w' = trace w @ evs \<and> list_all (tmp_event (tmp_loc w)) evs))"

text \<open>A run whose second component has a tag outside the vocabulary.\<close>

definition first_component :: "(string \<times> json) list" where
  "first_component = [(''Foo'', JObj record_with_png_url)]"



text \<open>The working directory and the UUID generator are the same.\<close>

definition same_env :: "world \<Rightarrow> world \<Rightarrow> bool" where
  "same_env w w' = (cwd w' = cwd w \<and> uuids w' = uuids w)"

text \<open>A record with the four required fields and nothing else.\<close>

definition record_plain :: "(string \<times> json) list" where
  "record_plain =
     [(''link'', JStr ''https://example.com''), (''tags'', JList [JStr ''util'']),
      (''summary'', JStr ''s''), (''developer'', JStr ''d'')]"

text \<open>
  The example world after an earlier run that left its image in the output directory
  \<open>content/components/Foo\<close>, and a record that names that file as its image.
\<close>

definition stale_image_fs :: "string list \<Rightarrow> node option" where
  "stale_image_fs p =
     (if p = [''w'', ''content'', ''components'', ''Foo''] then Some Dir
      else if p = [''w'', ''content'', ''components'', ''Foo'', ''logo.png'']
           then Some (File ''PNG'')
      else example_fs p)"

definition stale_image_world :: world where
  "stale_image_world = example_world\<lparr>fs := stale_image_fs\<rparr>"

definition record_with_stale_image :: "(string \<times> json) list" where
  "record_with_stale_image =
     [(''link'', JStr ''https://example.com''), (''tags'', JList [JStr ''util'']),
      (''summary'', JStr ''s''), (''developer'', JStr ''d''),
      (''image'', JStr ''content/components/Foo/logo.png'')]"

text \<open>
  The example world with a temporary directory left behind, holding one file.
\<close>

definition leftover_fs :: "string list \<Rightarrow> node option" where
  "leftover_fs p =
     (if p = [''w'', ''static'', ''components'', ''tmp''] then Some Dir
      else if p = [''w'', ''static'', ''components'', ''tmp'', ''old.png'']
           then Some (File ''PNG'')
      else example_fs p)"

definition leftover_world :: world where
  "leftover_world = example_world\<lparr>fs := leftover_fs\<rparr>"

text \<open>An event that removes nothing.\<close>

fun creates :: "event \<Rightarrow> bool" where
  "creates (EvMkdir q) = True"
| "creates (EvWrite q) = True"
| "creates (EvRmtree q) = False"

text \<open>
  \<open>w'\<close> comes from \<open>w\<close> without any removal: the working directory is the same,
  and the changes made since are creations of directories and writes of files.
\<close>

definition nothing_removed :: "world \<Rightarrow> world \<Rightarrow> bool" where
  "nothing_removed w w' =
     (cwd w' = cwd w \<and> (\<exists>evs. trace w' = trace w @ evs \<and> list_all creates evs))"

text \<open>
  The writer without its last step: everything from the test for an existing output
  directory up to and including the writing of \<open>index.md\<close>.
\<close>

definition write_outputs :: "world \<Rightarrow> CompModel \<Rightarrow> (pyerr + unit) \<times> world" where
  "write_outputs w1 m =
     (let cpath = joinpath (Path ''content/components'') (Path (title m)) in
      then_do (if is_dir w1 cpath then rmtree w1 cpath else (Inr (), w1))
        (\<lambda>_ w2.
      then_do (mkdir w2 cpath)
        (\<lambda>_ w3.
      then_do (if truthy (image_f m) then shutil_copy w3 (the (image_f m)) cpath
               else (Inr (), w3))
        (\<lambda>_ w4.
      write_file w4 (joinpath cpath (Path ''index.md'')) (index_md m)))))"

section \<open>Validation\<close>

subsection \<open>What validate_model accepts and how it fails\<close>

lemma valid_link_Inl: "valid_link w v = Inl e \<Longrightarrow> e = RequestException"
  by (auto simp: valid_link_def split: http_result.splits if_splits)

lemma field_link_Inl: "field_link w input = Inl e \<Longrightarrow> e = RequestException"
  by (auto simp: field_link_def split: option.splits dest: valid_link_Inl)

lemma validate_model_Inr:
  assumes "validate_model w input = (Inr m, w')"
  shows "field_str input ''title'' = Some (title m)"
    and "field_link w input = Inr (Some (link m))"
    and "field_tags input = Some (tags m)"
    and "field_str input ''summary'' = Some (summary m)"
    and "field_str input ''developer'' = Some (developer m)"
    and "field_date w input = Some (date m)"
    and "field_image w input = (Inr (Some (image_f m)), w')"
    and "\<not> has_extra input"
  using assms
  by (auto simp: validate_model_def Let_def split: sum.splits prod.splits option.splits if_splits)


lemma validate_model_fails:
  assumes "field_str input ''title'' = None \<or> field_link w input = Inr None
           \<or> field_tags input = None \<or> field_str input ''summary'' = None
           \<or> field_str input ''developer'' = None \<or> field_date w input = None
           \<or> has_extra input"
  shows "\<exists>e w'. validate_model w input = (Inl e, w')"
proof (cases "validate_model w input")
  case (Pair r w')
  show ?thesis
  proof (cases r)
    case (Inl e)
    with Pair show ?thesis by blast
  next
    case (Inr m)
    with Pair have "validate_model w input = (Inr m, w')" by simp
    from validate_model_Inr[OF this] assms show ?thesis by auto
  qed
qed

lemma tag_of_json_Some: "tag_of_json j = Some t \<Longrightarrow> j \<in> JStr ` set vocabulary"
proof (cases j)
  case (JStr s)
  assume "tag_of_json j = Some t"
  with JStr have "find (\<lambda>t. tag_value t = s) all_tags = Some t"
    by (simp add: TagEnum_of_value_def)
  then have "t \<in> set all_tags" and "tag_value t = s"
    by (auto simp: find_Some_iff)
  with JStr show ?thesis by (auto simp: vocabulary_def)
qed simp_all

lemma those_None: "None \<in> set xs \<Longrightarrow> those xs = None"
  by (induction xs) (auto split: option.splits)

lemma field_tags_outside:
  assumes "map_of kvs ''tags'' = Some (JList items)"
    and "\<exists>j\<in>set items. j \<notin> JStr ` set vocabulary"
  shows "field_tags ((''title'', x) # kvs) = None"
proof -
  from assms(2) obtain j where j: "j \<in> set items" "j \<notin> JStr ` set vocabulary" by blast
  then have "tag_of_json j = None"
    using tag_of_json_Some by (cases "tag_of_json j") auto
  with j(1) have "None \<in> set (map tag_of_json items)" by force
  then have "those (map tag_of_json items) = None" by (rule those_None)
  with assms(1) show ?thesis by (simp add: field_tags_def)
qed

subsection \<open>The call itself\<close>

lemma CompModel_call_clash:
  "''title'' \<in> fst ` set kvs \<or> ''__pydantic_self__'' \<in> fst ` set kvs \<Longrightarrow>
     CompModel_call w comp_name (JObj kvs) = (Inl TypeError, w)"
  by (auto simp: CompModel_call_def)

lemma CompModel_call_validate:
  "''title'' \<notin> fst ` set kvs \<Longrightarrow> ''__pydantic_self__'' \<notin> fst ` set kvs \<Longrightarrow>
     CompModel_call w comp_name (JObj kvs) = validate_model w ((''title'', JStr comp_name) # kvs)"
  by (simp add: CompModel_call_def)

subsection \<open>A title key in the raw mapping\<close>

text \<open>
  Claim C10. For every raw field mapping that itself contains a \<open>title\<close> key,
  constructing the component record raises a \<open>TypeError\<close> (the keyword \<open>title\<close> is
  given twice), not a \<open>ValidationError\<close>, although \<open>title\<close> is a declared field. The
  world is left as it was: no validator has run.
\<close>

theorem C10_title_key_raises_TypeError:
  "''title'' \<in> fst ` set kvs \<Longrightarrow>
     CompModel_call w comp_name (JObj kvs) = (Inl TypeError, w) \<and> TypeError \<noteq> ValidationError
     \<and> ''title'' \<in> set declared_fields"
  by (simp add: CompModel_call_def declared_fields_def)

theorem C10_title_key_witness:
  "''title'' \<in> fst ` set record_with_title_key \<and>
   CompModel_call example_world ''Foo'' (JObj record_with_title_key) = (Inl TypeError, example_world)"
  using C10_title_key_raises_TypeError [of record_with_title_key example_world "''Foo''"]
  by (simp add: record_with_title_key_def)

subsection \<open>Tags outside the vocabulary\<close>

text \<open>
  Claim C6. For every raw mapping whose tags list contains a value outside the fixed
  tag vocabulary (forcefields, assigners, gromacs, strategy, tactic, util, simulators,
  mmschema, translators), validation fails: no record is built.
\<close>

theorem C6_tag_outside_vocabulary_fails:
  assumes "map_of kvs ''tags'' = Some (JList items)"
    and "\<exists>j\<in>set items. j \<notin> JStr ` set vocabulary"
  shows "vocabulary = [''forcefields'', ''assigners'', ''gromacs'', ''strategy'', ''tactic'',
                       ''util'', ''simulators'', ''mmschema'', ''translators'']
         \<and> (\<exists>e w'. CompModel_call w comp_name (JObj kvs) = (Inl e, w'))"
proof
  show "vocabulary = [''forcefields'', ''assigners'', ''gromacs'', ''strategy'', ''tactic'',
                       ''util'', ''simulators'', ''mmschema'', ''translators'']"
    by (simp add: vocabulary_def all_tags_def)
next
  show "\<exists>e w'. CompModel_call w comp_name (JObj kvs) = (Inl e, w')"
  proof (cases "''title'' \<in> fst ` set kvs \<or> ''__pydantic_self__'' \<in> fst ` set kvs")
    case True
    then show ?thesis using CompModel_call_clash by blast
  next
    case False
    have "field_tags ((''title'', JStr comp_name) # kvs) = None"
      using assms by (rule field_tags_outside)
    then have "\<exists>e w'. validate_model w ((''title'', JStr comp_name) # kvs) = (Inl e, w')"
      by (intro validate_model_fails) simp
    with False show ?thesis by (simp add: CompModel_call_validate)
  qed
qed

theorem C6_tag_outside_vocabulary_witness:
  "map_of record_with_bad_tag ''tags'' = Some (JList [JStr ''util'', JStr ''Util''])
   \<and> (\<exists>j\<in>set [JStr ''util'', JStr ''Util'']. j \<notin> JStr ` set vocabulary)
   \<and> (\<exists>e w'. CompModel_call example_world ''Foo'' (JObj record_with_bad_tag) = (Inl e, w'))"
proof -
  have a: "map_of record_with_bad_tag ''tags'' = Some (JList [JStr ''util'', JStr ''Util''])"
    by (simp add: record_with_bad_tag_def)
  have b: "\<exists>j\<in>set [JStr ''util'', JStr ''Util'']. j \<notin> JStr ` set vocabulary"
    by (simp add: vocabulary_def all_tags_def image_iff)
  from C6_tag_outside_vocabulary_fails [OF a b, of example_world "''Foo''"] a b
  show ?thesis by blast
qed

subsection \<open>A local image that does not exist\<close>

text \<open>
  Claim C2. For a record whose image field is a local path (not starting with
  \<open>http\<close>) that names no existing file, the claim expects a \<open>ValidationError\<close>.
  The construction does fail, but never with a \<open>ValidationError\<close>: the failing
  \<open>assert\<close> evaluates a message that names the undefined variable \<open>p\<close>, and the
  resulting \<open>NameError\<close> is not one of the exceptions pydantic collects.
\<close>

theorem C2_missing_local_image_not_ValidationError:
  assumes "map_of kvs ''image'' = Some (JStr v)"
    and "\<not> prefix ''http'' v"
    and "\<not> is_file w (Path v)"
  shows "\<exists>e w'. CompModel_call w comp_name (JObj kvs) = (Inl e, w') \<and> e \<noteq> ValidationError"
proof (cases "''title'' \<in> fst ` set kvs \<or> ''__pydantic_self__'' \<in> fst ` set kvs")
  case True
  from CompModel_call_clash [OF this] show ?thesis by simp
next
  case False
  let ?input = "(''title'', JStr comp_name) # kvs"
  have img: "field_image w ?input = (Inl NameError, w)"
    using assms by (simp add: field_image_def valid_image_def Let_def)
  show ?thesis
  proof (cases "field_link w ?input")
    case (Inl e)
    then have "e = RequestException" by (rule field_link_Inl)
    with Inl False show ?thesis
      by (simp add: CompModel_call_validate validate_model_def)
  next
    case (Inr l)
    with img False show ?thesis
      by (simp add: CompModel_call_validate validate_model_def Let_def)
  qed
qed

theorem C2_missing_local_image_witness:
  "map_of record_with_missing_image ''image'' = Some (JStr ''logo.png'')
   \<and> \<not> prefix ''http'' ''logo.png''
   \<and> \<not> is_file example_world (Path ''logo.png'')
   \<and> (\<exists>e w'. CompModel_call example_world ''Foo'' (JObj record_with_missing_image) = (Inl e, w')
          \<and> e \<noteq> ValidationError)"
proof -
  have a: "map_of record_with_missing_image ''image'' = Some (JStr ''logo.png'')"
    by (simp add: record_with_missing_image_def)
  have b: "\<not> prefix ''http'' ''logo.png''" by simp
  have c: "\<not> is_file example_world (Path ''logo.png'')" by code_simp
  from C2_missing_local_image_not_ValidationError [OF a b c, of "''Foo''"] a b c
  show ?thesis by blast
qed

lemma missing_local_image_raises_NameError:
  "fst (CompModel_call example_world ''Foo'' (JObj record_with_missing_image)) = Inl NameError"
  by code_simp

subsection \<open>Valid records\<close>

text \<open>
  Claim C3. Every valid input record (required fields present with allowed values,
  link and optional image reachable, date well-formed) should be accepted, with the
  title equal to the JSON key. The record below is valid in that sense, and its image
  URL answers 200; but the URL has a slash after its last dot, so the text taken as the
  file extension is \<open>com/pic\<close>, the temporary file lies in a directory that does not
  exist, and opening it raises \<open>FileNotFoundError\<close>, which leaves the validator.
\<close>

theorem C3_extensionless_image_url_raises:
  "fst (CompModel_call example_world ''Foo'' (JObj record_with_extensionless_url)) = Inl OSError"
  by code_simp

text \<open>Whenever a record is built, its title is the JSON key.\<close>

lemma CompModel_call_title:
  assumes "CompModel_call w comp_name raw = (Inr m, w')"
  shows "title m = comp_name"
proof (cases raw)
  case (JObj kvs)
  with assms have "validate_model w ((''title'', JStr comp_name) # kvs) = (Inr m, w')"
    by (simp add: CompModel_call_def split: if_splits)
  from validate_model_Inr(1) [OF this] show ?thesis by (simp add: field_str_def)
qed (use assms in \<open>simp_all add: CompModel_call_def\<close>)

lemma TagEnum_of_tag_value: "TagEnum_of_value (tag_value t) = Some t"
  by (cases t) (simp_all add: TagEnum_of_value_def all_tags_def)

lemma those_tags:
  "\<forall>j\<in>set items. j \<in> JStr ` set vocabulary \<Longrightarrow> \<exists>ts. those (map tag_of_json items) = Some ts"
proof (induction items)
  case Nil
  then show ?case by simp
next
  case (Cons j items)
  then obtain ts where ts: "those (map tag_of_json items) = Some ts" by auto
  from Cons.prems obtain t where "j = JStr (tag_value t)"
    by (auto simp: vocabulary_def)
  then have "tag_of_json j = Some t" by (simp add: TagEnum_of_tag_value)
  with ts show ?case by simp
qed

text \<open>
  Records without a remote image: when the raw mapping has only declared fields other
  than the title, the link answers 200, the tags are in the vocabulary, summary and
  developer are strings, numbers or booleans, the date is absent or well-formed, and
  the image is absent or an existing local file, the record is built, nothing in the
  world changes, and the title is the JSON key.
\<close>

lemma valid_record_accepted:
  assumes keys: "\<forall>k\<in>set (map fst kvs). k \<in> set [''link'', ''tags'', ''summary'', ''developer'', ''date'', ''image'']"
    and link: "map_of kvs ''link'' = Some jl" "str_validator jl = Some l" "http w l = Response 200 body"
    and tags: "map_of kvs ''tags'' = Some (JList items)" "\<forall>j\<in>set items. j \<in> JStr ` set vocabulary"
    and summary: "map_of kvs ''summary'' = Some js" "str_validator js \<noteq> None"
    and developer: "map_of kvs ''developer'' = Some jd" "str_validator jd \<noteq> None"
    and date: "map_of kvs ''date'' = None
               \<or> (\<exists>s. map_of kvs ''date'' = Some (JStr s) \<and> strptime_ok w s)"
    and image: "map_of kvs ''image'' = None
               \<or> (\<exists>v. map_of kvs ''image'' = Some (JStr v) \<and> \<not> prefix ''http'' v \<and> is_file w (Path v))"
  shows "\<exists>m. CompModel_call w comp_name (JObj kvs) = (Inr m, w) \<and> title m = comp_name"
proof -
  let ?input = "(''title'', JStr comp_name) # kvs"
  from keys have nt: "''title'' \<notin> fst ` set kvs" "''__pydantic_self__'' \<notin> fst ` set kvs"
    by auto
  from keys have ne: "\<not> has_extra ?input"
    by (auto simp: has_extra_def declared_fields_def list_ex_iff)
  have t: "field_str ?input ''title'' = Some comp_name" by (simp add: field_str_def)
  have l: "field_link w ?input = Inr (Some l)"
    using link by (simp add: field_link_def valid_link_def)
  from those_tags [OF tags(2)] obtain ts where "those (map tag_of_json items) = Some ts" ..
  with tags(1) have tg: "field_tags ?input = Some ts" by (simp add: field_tags_def)
  from summary obtain s where s: "field_str ?input ''summary'' = Some s"
    by (auto simp: field_str_def)
  from developer obtain dv where dv: "field_str ?input ''developer'' = Some dv"
    by (auto simp: field_str_def)
  from date obtain dt where dt: "field_date w ?input = Some dt"
    by (auto simp: field_date_def valid_time_def)
  from image obtain im where im: "field_image w ?input = (Inr (Some im), w)"
    by (auto simp: field_image_def valid_image_def Let_def)
  have "validate_model w ?input
        = (Inr \<lparr>title = comp_name, link = l, tags = ts, summary = s, developer = dv,
                 date = dt, image_f = im\<rparr>, w)"
    using t l tg s dv dt im ne by (simp add: validate_model_def)
  with nt show ?thesis by (simp add: CompModel_call_validate)
qed

text \<open>An explicit \<open>null\<close> for the date or the image is not accepted.\<close>

lemma null_date_or_image_fails:
  assumes "map_of kvs ''date'' = Some JNull \<or> map_of kvs ''image'' = Some JNull"
  shows "\<exists>e w'. CompModel_call w comp_name (JObj kvs) = (Inl e, w')"
proof (cases "''title'' \<in> fst ` set kvs \<or> ''__pydantic_self__'' \<in> fst ` set kvs")
  case True
  then show ?thesis using CompModel_call_clash by blast
next
  case False
  let ?input = "(''title'', JStr comp_name) # kvs"
  from assms have "field_date w ?input = None \<or> field_image w ?input = (Inl AttributeError, w)"
    by (auto simp: field_date_def valid_time_def field_image_def valid_image_def)
  then have "\<exists>e w'. validate_model w ?input = (Inl e, w')"
  proof
    assume "field_date w ?input = None"
    then show ?thesis by (intro validate_model_fails) simp
  next
    assume "field_image w ?input = (Inl AttributeError, w)"
    then show ?thesis
      by (cases "field_link w ?input") (simp_all add: validate_model_def Let_def)
  qed
  with False show ?thesis by (simp add: CompModel_call_validate)
qed

subsection \<open>Missing and unknown fields\<close>




lemma missing_summary_raises_ValidationError:
  "fst (CompModel_call example_world ''Foo'' (JObj record_without_summary)) = Inl ValidationError"
  by code_simp

section \<open>random_file\<close>

lemma is_file_drawn [simp]: "is_file (w\<lparr>drawn := k\<rparr>) p = is_file w p"
  by (simp add: is_file_def resolve_def split: option.splits)

text \<open>With \<open>unique=True\<close>, a path that is returned never names an existing file.\<close>

lemma random_file_Inr_fresh:
  "random_file n w sfx path True = (Inr p, w') \<Longrightarrow> \<not> is_file w' p"
proof (induction n arbitrary: w)
  case 0
  then show ?case by simp
next
  case (Suc n)
  show ?case
  proof (cases "is_file w (candidate path sfx (uuids w (drawn w)))")
    case True
    with Suc.prems have "random_file n (w\<lparr>drawn := Suc (drawn w)\<rparr>) sfx path True = (Inr p, w')"
      by (simp add: candidate_def Let_def)
    then show ?thesis by (rule Suc.IH)
  next
    case False
    with Suc.prems show ?thesis
      by (auto simp: candidate_def Let_def)
  qed
qed

text \<open>When every draw within the recursion allowance collides, nothing is returned.\<close>

lemma random_file_all_collide:
  assumes "\<And>i. i < n \<Longrightarrow> is_file w (candidate path sfx (uuids w (drawn w + i)))"
  shows "fst (random_file n w sfx path True) = Inl RecursionError"
  using assms
proof (induction n arbitrary: w)
  case 0
  then show ?case by simp
next
  case (Suc n)
  let ?w1 = "w\<lparr>drawn := Suc (drawn w)\<rparr>"
  from Suc.prems [of 0] have c: "is_file w (candidate path sfx (uuids w (drawn w)))" by simp
  have "\<And>i. i < n \<Longrightarrow> is_file ?w1 (candidate path sfx (uuids ?w1 (drawn ?w1 + i)))"
    using Suc.prems [of "Suc i" for i] by simp
  from Suc.IH [OF this] c show ?case by (simp add: candidate_def Let_def)
qed



section \<open>Rendering\<close>

lemma split_on_not_Nil [simp]: "split_on c s \<noteq> []"
  by (induction s) (auto split: list.splits)

lemma split_on_no_sep: "c \<notin> set a \<Longrightarrow> split_on c a = [a]"
  by (induction a) auto

lemma split_on_append_sep: "c \<notin> set a \<Longrightarrow> split_on c (a @ c # b) = a # split_on c b"
  by (induction a) auto

lemma split_on_elem: "x \<in> set (split_on c s) \<Longrightarrow> c \<notin> set x"
  by (induction s arbitrary: x) (auto split: if_splits list.splits)

lemma lines_of_unlines:
  "\<forall>l\<in>set ls. CHR ''\<newline>'' \<notin> set l \<Longrightarrow> lines_of (unlines ls) = ls @ [[]]"
  by (induction ls) (auto simp: lines_of_def unlines_def split_on_append_sep)

lemma name_of_no_slash: "CHR ''/'' \<notin> set (name_of (Path v))"
proof (cases "parts (Path v) = []")
  case True
  then show ?thesis by (simp add: name_of_def)
next
  case False
  then have "last (parts (Path v)) \<in> set (parts (Path v))" by simp
  then have "last (parts (Path v)) \<in> set (split_on (CHR ''/'') v)"
    by (simp add: Path_def)
  then have "CHR ''/'' \<notin> set (last (parts (Path v)))" by (rule split_on_elem)
  with False show ?thesis by (simp add: name_of_def)
qed

lemma tag_name_no_newline: "CHR ''\<newline>'' \<notin> set (tag_name t)"
  by (cases t) simp_all

lemma join_comma_no_newline: "CHR ''\<newline>'' \<notin> set (join_comma (map tag_name ts))"
  by (induction ts rule: induct_list012) (simp_all add: tag_name_no_newline)

lemma tags_text_no_newline: "CHR ''\<newline>'' \<notin> set (tags_text ts)"
  by (simp add: tags_text_def join_comma_no_newline)

lemma front_matter_no_image:
  "\<not> truthy (image_f m) \<Longrightarrow>
   front_matter m = unlines [''title: '' @ title m, ''date: '' @ py_format (date m),
      ''draft: true'', ''hideLastModified: true'', ''showInMenu: false'',
      ''summary: '' @ summary m, ''link: '' @ link m, ''tags: '' @ tags_text (tags m)]"
  by (simp add: front_matter_def dict_def unlines_def)

lemma front_matter_image:
  "truthy (image_f m) \<Longrightarrow>
   front_matter m = unlines [''title: '' @ title m, ''date: '' @ py_format (date m),
      ''draft: true'', ''hideLastModified: true'', ''showInMenu: false'',
      ''summaryImage: '' @ name_of (Path (the (image_f m))),
      ''summary: '' @ summary m, ''link: '' @ link m, ''tags: '' @ tags_text (tags m)]"
  by (simp add: front_matter_def dict_def unlines_def py_format_def)

lemma split_on_append:
  "split_on c (a @ c # b) = split_on c a @ split_on c b"
proof (induction a)
  case Nil
  show ?case by simp
next
  case (Cons x a)
  obtain y ys where y: "split_on c a = y # ys" by (cases "split_on c a") auto
  with Cons show ?case by simp
qed

lemma split_on_prepend:
  "c \<notin> set p \<Longrightarrow> split_on c (p @ s) = (p @ hd (split_on c s)) # tl (split_on c s)"
proof (induction p)
  case Nil
  then show ?case by simp
next
  case (Cons x p)
  then show ?case by (auto split: list.splits)
qed

lemma lines_of_unlines_concat:
  "lines_of (unlines ls) = concat (map lines_of ls) @ [[]]"
proof (induction ls)
  case Nil
  show ?case by (simp add: lines_of_def unlines_def)
next
  case (Cons l ls)
  have "unlines (l # ls) = l @ CHR ''\<newline>'' # unlines ls" by (simp add: unlines_def)
  with Cons show ?case by (simp add: lines_of_def split_on_append)
qed

lemma lines_of_key:
  "CHR ''\<newline>'' \<notin> set key \<Longrightarrow>
     lines_of (key @ v) = (key @ hd (lines_of v)) # tl (lines_of v)"
  by (simp add: lines_of_def split_on_prepend)

lemma lines_of_single: "CHR ''\<newline>'' \<notin> set l \<Longrightarrow> lines_of l = [l]"
  by (simp add: lines_of_def split_on_no_sep)

text \<open>
  Claim C5, as stated, says that the block rendered for a record with no image contains
  no \<open>summaryImage\<close> line, and that the block rendered for a record with an image has
  a \<open>summaryImage\<close> line whose value is the file name of the image. Field values
  are inserted verbatim: a summary of two lines brings a \<open>summaryImage\<close> line into
  the block of a record with no image, and the name of an existing image file with a
  newline in it is cut at the newline.
\<close>

theorem C5_counterexample:
  "fst (CompModel_call example_world ''Foo'' (JObj record_with_multiline_summary)) = Inr multiline_model
   \<and> image_f multiline_model = None
   \<and> has_summaryImage_line (front_matter multiline_model)
   \<and> fst (CompModel_call newline_name_world ''Foo'' (JObj record_with_newline_image))
       = Inr newline_image_model
   \<and> image_f newline_image_model = Some ''static/components/logo\<newline>summary: x.png''
   \<and> name_of (Path ''static/components/logo\<newline>summary: x.png'') = ''logo\<newline>summary: x.png''
   \<and> ''summaryImage: logo\<newline>summary: x.png'' \<notin> set (lines_of (front_matter newline_image_model))
   \<and> lines_of (front_matter newline_image_model) ! 5 = ''summaryImage: logo''"
  by code_simp

text \<open>
  Claim C5, amended. Values are inserted verbatim into a template that has a
  \<open>summaryImage\<close> line only when the record has an image. Rendering a record with no
  image gives a block with a line that starts with \<open>summaryImage:\<close> exactly when one
  of the values inserted (title, date, summary, link) has such a line after its first
  line; so there is none when these values have one line each. Rendering a record with
  an image gives a block with the line \<open>summaryImage: name\<close>, where \<open>name\<close> is the
  file name component of the resolved image path, exactly when that name contains no
  newline; the name never has directory components.
\<close>

theorem C5_summaryImage_line:
  "(\<not> truthy (image_f m) \<longrightarrow>
      has_summaryImage_line (front_matter m)
      = (carries_summaryImage_line (title m) \<or> carries_summaryImage_line (py_format (date m))
         \<or> carries_summaryImage_line (summary m) \<or> carries_summaryImage_line (link m)))
   \<and> (\<forall>v. image_f m = Some v \<and> v \<noteq> [] \<longrightarrow>
          ((''summaryImage: '' @ name_of (Path v) \<in> set (lines_of (front_matter m)))
           = (CHR ''\<newline>'' \<notin> set (name_of (Path v))))
          \<and> CHR ''/'' \<notin> set (name_of (Path v)))"
proof (intro conjI impI allI)
  assume ni: "\<not> truthy (image_f m)"
  have tg: "lines_of (''tags: '' @ tags_text (tags m)) = [''tags: '' @ tags_text (tags m)]"
    by (rule lines_of_single) (simp add: tags_text_no_newline)
  have "lines_of (front_matter m)
        = ((''title: '' @ hd (lines_of (title m))) # tl (lines_of (title m)))
          @ ((''date: '' @ hd (lines_of (py_format (date m)))) # tl (lines_of (py_format (date m))))
          @ [''draft: true'', ''hideLastModified: true'', ''showInMenu: false'']
          @ ((''summary: '' @ hd (lines_of (summary m))) # tl (lines_of (summary m)))
          @ ((''link: '' @ hd (lines_of (link m))) # tl (lines_of (link m)))
          @ [''tags: '' @ tags_text (tags m), []]"
  proof -
    have k1: "lines_of (''title: '' @ title m)
              = (''title: '' @ hd (lines_of (title m))) # tl (lines_of (title m))"
      by (rule lines_of_key) simp
    have k2: "lines_of (''date: '' @ py_format (date m))
              = (''date: '' @ hd (lines_of (py_format (date m)))) # tl (lines_of (py_format (date m)))"
      by (rule lines_of_key) simp
    have k3: "lines_of (''summary: '' @ summary m)
              = (''summary: '' @ hd (lines_of (summary m))) # tl (lines_of (summary m))"
      by (rule lines_of_key) simp
    have k4: "lines_of (''link: '' @ link m)
              = (''link: '' @ hd (lines_of (link m))) # tl (lines_of (link m))"
      by (rule lines_of_key) simp
    have f1: "lines_of ''draft: true'' = [''draft: true'']"
      and f2: "lines_of ''hideLastModified: true'' = [''hideLastModified: true'']"
      and f3: "lines_of ''showInMenu: false'' = [''showInMenu: false'']"
      by (simp_all add: lines_of_single)
    have "lines_of (front_matter m)
          = concat (map lines_of [''title: '' @ title m, ''date: '' @ py_format (date m),
              ''draft: true'', ''hideLastModified: true'', ''showInMenu: false'',
              ''summary: '' @ summary m, ''link: '' @ link m, ''tags: '' @ tags_text (tags m)])
            @ [[]]"
      by (simp only: front_matter_no_image [OF ni] lines_of_unlines_concat)
    also have "\<dots> = ((''title: '' @ hd (lines_of (title m))) # tl (lines_of (title m)))
          @ ((''date: '' @ hd (lines_of (py_format (date m)))) # tl (lines_of (py_format (date m))))
          @ [''draft: true'', ''hideLastModified: true'', ''showInMenu: false'']
          @ ((''summary: '' @ hd (lines_of (summary m))) # tl (lines_of (summary m)))
          @ ((''link: '' @ hd (lines_of (link m))) # tl (lines_of (link m)))
          @ [''tags: '' @ tags_text (tags m), []]"
      unfolding list.map concat.simps k1 k2 k3 k4 f1 f2 f3 tg by simp
    finally show ?thesis .
  qed
  then show "has_summaryImage_line (front_matter m)
      = (carries_summaryImage_line (title m) \<or> carries_summaryImage_line (py_format (date m))
         \<or> carries_summaryImage_line (summary m) \<or> carries_summaryImage_line (link m))"
    by (simp add: has_summaryImage_line_def carries_summaryImage_line_def)
next
  fix v
  assume v: "image_f m = Some v \<and> v \<noteq> []"
  then have t: "truthy (image_f m)" by (simp add: truthy_def)
  let ?l = "''summaryImage: '' @ name_of (Path v)"
  show "(?l \<in> set (lines_of (front_matter m))) = (CHR ''\<newline>'' \<notin> set (name_of (Path v)))"
  proof
    assume "?l \<in> set (lines_of (front_matter m))"
    then have "CHR ''\<newline>'' \<notin> set ?l" unfolding lines_of_def by (rule split_on_elem)
    then show "CHR ''\<newline>'' \<notin> set (name_of (Path v))" by simp
  next
    assume "CHR ''\<newline>'' \<notin> set (name_of (Path v))"
    then have l: "lines_of ?l = [?l]" by (intro lines_of_single) simp
    from v have tv: "the (image_f m) = v" by simp
    have "lines_of (front_matter m)
          = concat (map lines_of [''title: '' @ title m, ''date: '' @ py_format (date m),
              ''draft: true'', ''hideLastModified: true'', ''showInMenu: false'', ?l,
              ''summary: '' @ summary m, ''link: '' @ link m, ''tags: '' @ tags_text (tags m)])
            @ [[]]"
      by (simp only: front_matter_image [OF t] lines_of_unlines_concat tv)
    then show "?l \<in> set (lines_of (front_matter m))"
      unfolding list.map concat.simps l by simp
  qed
next
  fix v
  show "CHR ''/'' \<notin> set (name_of (Path v))" by (rule name_of_no_slash)
qed

theorem C5_summaryImage_line_witness:
  "image_f model_with_image = Some ''static/components/logo.png''
   \<and> ''summaryImage: logo.png'' \<in> set (lines_of (front_matter model_with_image))
   \<and> image_f model_without_image = None
   \<and> \<not> has_summaryImage_line (front_matter model_without_image)"
proof -
  have e: "image_f model_with_image = Some ''static/components/logo.png''"
    by (simp add: model_with_image_def)
  have f: "name_of (Path ''static/components/logo.png'') = ''logo.png''" by code_simp
  from C5_summaryImage_line [of model_with_image] e f
  have g: "''summaryImage: logo.png'' \<in> set (lines_of (front_matter model_with_image))"
    by simp
  have e': "image_f model_without_image = None" by (simp add: model_without_image_def)
  have n: "\<not> carries_summaryImage_line (title model_without_image)"
    "\<not> carries_summaryImage_line (py_format (date model_without_image))"
    "\<not> carries_summaryImage_line (summary model_without_image)"
    "\<not> carries_summaryImage_line (link model_without_image)"
    by code_simp+
  from C5_summaryImage_line [of model_without_image] e' n
  have h: "\<not> has_summaryImage_line (front_matter model_without_image)"
    by (simp add: truthy_def)
  from e g e' h show ?thesis by blast
qed

section \<open>The file system\<close>

subsection \<open>Path resolution\<close>

lemma walk_lex: "walk f cur ps = Some q \<Longrightarrow> q = lex cur ps"
  by (induction ps arbitrary: cur) (auto split: if_splits)

lemma lex_append: "lex cur (ps @ qs) = lex (lex cur ps) qs"
  by (induction ps arbitrary: cur) auto


lemma walk_append:
  "walk f cur (ps @ qs) = (case walk f cur ps of None \<Rightarrow> None | Some p \<Rightarrow> walk f p qs)"
  by (induction ps arbitrary: cur) auto

lemma walk_snoc_Some:
  assumes "walk f cur (ps @ [b]) = Some q"
  shows "f (lex cur ps) = Some Dir
         \<and> (if b = ''.'' then q = lex cur ps
            else if b = ''..'' then q = butlast (lex cur ps) \<and> f q = Some Dir
            else q = lex cur ps @ [b])"
proof -
  from assms obtain p where p: "walk f cur ps = Some p" and s: "walk f p [b] = Some q"
    by (auto simp: walk_append split: option.splits)
  from p have "p = lex cur ps" by (rule walk_lex)
  with s show ?thesis by (auto split: if_splits)
qed

lemma resolve_lex: "resolve w p = Some q \<Longrightarrow> q = lex (if is_abs p then [] else cwd w) (parts p)"
  by (auto simp: resolve_def dest: walk_lex split: if_splits)

lemma resolve_walk:
  "resolve w p = Some q \<Longrightarrow> walk (fs w) (if is_abs p then [] else cwd w) (parts p) = Some q"
  by (auto simp: resolve_def split: if_splits)

lemma resolve_alive: "resolve w p = Some q \<Longrightarrow> is_abs p \<or> cwd_alive w"
  by (auto simp: resolve_def split: if_splits)

subsection \<open>What a successful operation has done\<close>

lemma rmtree_Inr:
  assumes "rmtree w p = (Inr u, w')"
  shows "\<exists>q. resolve w p = Some q \<and> fs w q = Some Dir
             \<and> w' = w\<lparr>fs := (\<lambda>x. if prefix q x then None else fs w x),
                       cwd_alive := cwd_alive w \<and> \<not> prefix q (cwd w),
                       trace := trace w @ [EvRmtree q]\<rparr>"
proof -
  from assms obtain q where q: "resolve w p = Some q"
    by (auto simp: rmtree_def split: option.splits)
  have e: "(\<lambda>x. if strict_prefix q x then None else fs w x)(q := None)
           = (\<lambda>x. if prefix q x then None else fs w x)"
    by (auto simp: fun_eq_iff strict_prefix_def)
  from assms q show ?thesis
    by (auto simp: rmtree_def Let_def e split: if_splits)
qed

lemma mkdir_Inr:
  assumes "mkdir w p = (Inr u, w')"
  shows "\<exists>q. resolve w p = Some q \<and> fs w q = None
             \<and> w' = w\<lparr>fs := (fs w)(q \<mapsto> Dir), trace := trace w @ [EvMkdir q]\<rparr>"
  using assms by (auto simp: mkdir_def split: option.splits if_splits)

lemma write_file_Inr:
  assumes "write_file w p d = (Inr u, w')"
  shows "\<exists>q. resolve w p = Some q \<and> parts p \<noteq> [] \<and> fs w q \<noteq> Some Dir
             \<and> w' = w\<lparr>fs := (fs w)(q \<mapsto> File d), trace := trace w @ [EvWrite q]\<rparr>"
  using assms by (auto simp: write_file_def split: option.splits if_splits)

lemma shutil_copy_Inr:
  assumes "shutil_copy w src dst = (Inr u, w')"
  shows "\<exists>d. read_file w (os_path src) = Inr d
           \<and> write_file w (if is_dir w dst then os_join dst (basename src) else dst) d = (Inr u, w')"
  using assms by (auto simp: shutil_copy_def Let_def split: if_splits sum.splits)

lemma then_do_Inr:
  "then_do a k = (Inr y, w') \<Longrightarrow> \<exists>x w1. a = (Inr x, w1) \<and> k x w1 = (Inr y, w')"
  by (auto simp: then_do_def split: prod.splits sum.splits)

lemma then_do_Inr_unit:
  fixes a :: "(pyerr + unit) \<times> world"
  shows "then_do a k = (Inr y, w') \<Longrightarrow> \<exists>w1. a = (Inr (), w1) \<and> k () w1 = (Inr y, w')"
  by (auto simp: then_do_def split: prod.splits sum.splits)

lemma os_join_parts:
  "os_join d b = PyPath (is_abs d) (parts d @ [if b = [] then ''.'' else b])"
  by (simp add: os_join_def)

lemma Path_index_md: "Path ''index.md'' = PyPath False [''index.md'']"
  by code_simp

lemma Path_tmp: "Path ''static/components/tmp'' = PyPath False [''static'', ''components'', ''tmp'']"
  by code_simp

lemma Path_content: "Path ''content/components'' = PyPath False [''content'', ''components'']"
  by code_simp

section \<open>What validation changes\<close>

lemma then_do_cases:
  assumes "then_do a k = (r, w')"
  shows "(\<exists>e. a = (Inl e, w') \<and> r = Inl e) \<or> (\<exists>x w1. a = (Inr x, w1) \<and> k x w1 = (r, w'))"
  using assms by (auto simp: then_do_def split: prod.splits sum.splits)

lemma main_loop_append:
  "main_loop w (pre @ rest) =
     (case main_loop w pre of (Inl e, w') \<Rightarrow> (Inl e, w') | (Inr u, w') \<Rightarrow> main_loop w' rest)"
  by (induction pre arbitrary: w) (auto split: prod.splits sum.splits)

lemma random_file_world:
  "random_file n w sfx path u = (r, w') \<Longrightarrow> \<exists>k. w' = w\<lparr>drawn := k\<rparr>"
proof (induction n arbitrary: w)
  case 0
  then have "w' = w\<lparr>drawn := drawn w\<rparr>" by simp
  then show ?case by blast
next
  case (Suc n)
  let ?w1 = "w\<lparr>drawn := Suc (drawn w)\<rparr>"
  from Suc.prems have "random_file n ?w1 sfx path u = (r, w') \<or> w' = ?w1"
    by (auto simp: Let_def split: if_splits)
  then show ?case
  proof
    assume "random_file n ?w1 sfx path u = (r, w')"
    from Suc.IH [OF this] obtain k where "w' = ?w1\<lparr>drawn := k\<rparr>" by blast
    then have "w' = w\<lparr>drawn := k\<rparr>" by simp
    then show ?thesis by blast
  qed blast
qed

lemma random_file_path:
  "random_file n w sfx path u = (Inr p, w') \<Longrightarrow> \<exists>i. p = candidate path sfx (uuids w i)"
proof (induction n arbitrary: w)
  case 0
  then show ?case by simp
next
  case (Suc n)
  let ?w1 = "w\<lparr>drawn := Suc (drawn w)\<rparr>"
  from Suc.prems have "random_file n ?w1 sfx path u = (Inr p, w')
                       \<or> p = candidate path sfx (uuids w (drawn w))"
    by (auto simp: Let_def candidate_def split: if_splits)
  then show ?case
  proof
    assume "random_file n ?w1 sfx path u = (Inr p, w')"
    from Suc.IH [OF this] show ?thesis by simp
  qed blast
qed

text \<open>
  The worlds that the validator of \<open>image\<close> can leave: the one it started in; that
  world after the temporary directory has been made (\<open>w1\<close>); \<open>w1\<close> after some UUIDs
  have been drawn; or that world after one file has been written, at the absolute path
  of a candidate name in the temporary directory.
\<close>

lemma valid_image_steps:
  assumes v: "valid_image w v0 = (r, w')"
  shows "w' = w
         \<or> (\<exists>v r1 w1. v0 = Some v
              \<and> (if \<not> is_dir w (Path ''static/components/tmp'')
                  then mkdir w (Path ''static/components/tmp'') else (Inr (), w)) = (r1, w1)
              \<and> (w' = w1 \<or> (\<exists>k. w' = w1\<lparr>drawn := k\<rparr>)
                  \<or> (\<exists>k i body r3 pfile.
                        pfile = candidate ''static/components/tmp''
                                  (''.'' @ last (split_on (CHR ''.'') v)) (uuids w1 i)
                        \<and> write_file (w1\<lparr>drawn := k\<rparr>)
                             (os_path (path_str (if is_abs pfile then pfile
                                                 else PyPath True (cwd w1 @ parts pfile))))
                             body = (r3, w'))))"
proof (cases v0)
  case None
  with v show ?thesis by (simp add: valid_image_def)
next
  case (Some v1)
  show ?thesis
  proof (cases "prefix ''http'' v1")
    case False
    with v Some have "w' = w" by (auto simp: valid_image_def Let_def split: if_splits)
    then show ?thesis by simp
  next
    case True
    let ?ext = "last (split_on (CHR ''.'') v1)"
    show ?thesis
    proof (cases "http w v1")
      case RaisesValueError
      with True v Some have "w' = w" by (simp add: valid_image_def)
      then show ?thesis by simp
    next
      case RaisesRequestException
      with True v Some have "w' = w" by (simp add: valid_image_def)
      then show ?thesis by simp
    next
      case (Response status body)
      show ?thesis
      proof (cases "status = 200")
        case False
        with Response True v Some have "w' = w" by (simp add: valid_image_def)
        then show ?thesis by simp
      next
        case ok: True
        let ?tmp = "Path ''static/components/tmp''"
        let ?k3 = "\<lambda>pfile w2 (_::unit) w3.
                     if is_file w3 pfile
                     then (Inr (Some (path_str (if is_abs pfile then pfile
                                      else PyPath True (cwd w2 @ parts pfile)))), w3)
                     else (Inl NameError, w3)"
        let ?k2 = "\<lambda>pfile w2.
                     then_do (write_file w2 (os_path (path_str (if is_abs pfile then pfile
                                      else PyPath True (cwd w2 @ parts pfile)))) body)
                       (?k3 pfile w2)"
        let ?k1 = "\<lambda>(_::unit) w1.
                     then_do (random_file (stack_left w1) w1 (''.'' @ ?ext) ''static/components/tmp'' True) ?k2"
        from v True Response ok Some have td:
          "then_do (if \<not> is_dir w ?tmp then mkdir w ?tmp else (Inr (), w)) ?k1 = (r, w')"
          by (simp add: valid_image_def Let_def)
        from then_do_cases [OF td] show ?thesis
        proof (elim disjE exE conjE)
          fix e assume "(if \<not> is_dir w ?tmp then mkdir w ?tmp else (Inr (), w)) = (Inl e, w')"
          with Some show ?thesis by blast
        next
          fix x w1
          assume a: "(if \<not> is_dir w ?tmp then mkdir w ?tmp else (Inr (), w)) = (Inr x, w1)"
            and b: "?k1 x w1 = (r, w')"
          from then_do_cases [OF b]
          have "w' = w1 \<or> (\<exists>k. w' = w1\<lparr>drawn := k\<rparr>)
                  \<or> (\<exists>k i body r3 pfile.
                        pfile = candidate ''static/components/tmp'' (''.'' @ ?ext) (uuids w1 i)
                        \<and> write_file (w1\<lparr>drawn := k\<rparr>)
                             (os_path (path_str (if is_abs pfile then pfile
                                                 else PyPath True (cwd w1 @ parts pfile))))
                             body = (r3, w'))"
          proof (elim disjE exE conjE)
            fix e assume "random_file (stack_left w1) w1 (''.'' @ ?ext) ''static/components/tmp'' True = (Inl e, w')"
            from random_file_world [OF this] show ?thesis by blast
          next
            fix pfile w2
            assume rf: "random_file (stack_left w1) w1 (''.'' @ ?ext) ''static/components/tmp'' True = (Inr pfile, w2)"
              and c: "?k2 pfile w2 = (r, w')"
            from random_file_world [OF rf] obtain k where w2: "w2 = w1\<lparr>drawn := k\<rparr>" by blast
            from random_file_path [OF rf] obtain i where
              pf: "pfile = candidate ''static/components/tmp'' (''.'' @ ?ext) (uuids w1 i)"
              by blast
            have cw: "cwd w2 = cwd w1" by (simp add: w2)
            from then_do_cases [OF c]
            have "\<exists>r3. write_file w2 (os_path (path_str (if is_abs pfile then pfile
                        else PyPath True (cwd w2 @ parts pfile)))) body = (r3, w')"
            proof (elim disjE exE conjE)
              fix e
              assume "write_file w2 (os_path (path_str (if is_abs pfile then pfile
                        else PyPath True (cwd w2 @ parts pfile)))) body = (Inl e, w')"
              then show ?thesis by blast
            next
              fix x3 w3
              assume wr: "write_file w2 (os_path (path_str (if is_abs pfile then pfile
                        else PyPath True (cwd w2 @ parts pfile)))) body = (Inr x3, w3)"
                and d: "?k3 pfile w2 x3 w3 = (r, w')"
              from d have "w' = w3" by (auto split: if_splits)
              with wr show ?thesis by blast
            qed
            then obtain r3 where
              "write_file (w1\<lparr>drawn := k\<rparr>) (os_path (path_str (if is_abs pfile then pfile
                        else PyPath True (cwd w1 @ parts pfile)))) body = (r3, w')"
              unfolding cw unfolding w2 by blast
            with pf show ?thesis by blast
          qed
          with a Some show ?thesis by blast
        qed
      qed
    qed
  qed
qed

text \<open>Where a construction of the record can leave the world.\<close>

lemma field_image_world:
  assumes "field_image w input = (r, w')"
  shows "w' = w \<or> (\<exists>v0 r0. valid_image w v0 = (r0, w'))"
proof (cases "map_of input ''image''")
  case None
  with assms show ?thesis by (simp add: field_image_def)
next
  case (Some j)
  show ?thesis
  proof (cases "if j = JNull then Some None else map_option Some (str_validator j)")
    case None
    with Some assms have "w' = w" by (simp add: field_image_def)
    then show ?thesis by simp
  next
    case s: (Some v0)
    with Some assms have "w' = snd (valid_image w v0)"
      by (auto simp: field_image_def split: prod.splits sum.splits option.splits)
    then have "valid_image w v0 = (fst (valid_image w v0), w')" by simp
    then show ?thesis by blast
  qed
qed

lemma validate_model_world:
  assumes "validate_model w input = (r, w')"
  shows "w' = w \<or> w' = snd (field_image w input)"
  using assms
  by (auto simp: validate_model_def Let_def split: sum.splits prod.splits option.splits if_splits)

lemma CompModel_call_world:
  assumes "CompModel_call w comp_name raw = (r, w')"
  shows "w' = w \<or> (\<exists>v0 r0. valid_image w v0 = (r0, w'))"
proof (cases raw)
  case (JObj kvs)
  let ?input = "(''title'', JStr comp_name) # kvs"
  show ?thesis
  proof (cases "''title'' \<in> set (map fst kvs) \<or> ''__pydantic_self__'' \<in> set (map fst kvs)")
    case True
    with JObj assms have "w' = w" by (auto simp: CompModel_call_def)
    then show ?thesis by simp
  next
    case False
    with JObj assms have "validate_model w ?input = (r, w')" by (simp add: CompModel_call_def)
    from validate_model_world [OF this] show ?thesis
    proof
      assume "w' = w" then show ?thesis by simp
    next
      assume "w' = snd (field_image w ?input)"
      then have "field_image w ?input = (fst (field_image w ?input), w')" by simp
      from field_image_world [OF this] show ?thesis .
    qed
  qed
qed (use assms in \<open>auto simp: CompModel_call_def\<close>)

subsection \<open>Validation removes nothing\<close>

lemma nothing_removed_refl [simp]: "nothing_removed w w"
  by (simp add: nothing_removed_def)

lemma nothing_removed_drawn [simp]: "nothing_removed w (w\<lparr>drawn := k\<rparr>)"
  by (simp add: nothing_removed_def)

lemma nothing_removed_trans:
  assumes "nothing_removed w w1" and "nothing_removed w1 w2"
  shows "nothing_removed w w2"
proof -
  from assms obtain e1 e2 where
    "trace w1 = trace w @ e1" "list_all creates e1"
    "trace w2 = trace w1 @ e2" "list_all creates e2"
    by (auto simp: nothing_removed_def)
  then have "trace w2 = trace w @ (e1 @ e2) \<and> list_all creates (e1 @ e2)" by simp
  then have "\<exists>evs. trace w2 = trace w @ evs \<and> list_all creates evs" by blast
  with assms show ?thesis by (simp add: nothing_removed_def)
qed

lemma mkdir_nothing_removed: "mkdir w p = (r, w') \<Longrightarrow> nothing_removed w w'"
  by (auto simp: mkdir_def nothing_removed_def split: option.splits if_splits)

lemma write_file_nothing_removed: "write_file w p d = (r, w') \<Longrightarrow> nothing_removed w w'"
  by (auto simp: write_file_def nothing_removed_def split: option.splits if_splits)

lemma valid_image_nothing_removed:
  assumes "valid_image w v0 = (r, w')"
  shows "nothing_removed w w'"
  using valid_image_steps [OF assms]
proof (elim disjE exE conjE)
  fix v r1 w1
  assume a: "(if \<not> is_dir w (Path ''static/components/tmp'')
              then mkdir w (Path ''static/components/tmp'') else (Inr (), w)) = (r1, w1)"
  then have n1: "nothing_removed w w1"
    by (auto split: if_splits dest: mkdir_nothing_removed)
  {
    assume "w' = w1"
    with n1 show ?thesis by simp
  next
    fix k assume "w' = w1\<lparr>drawn := k\<rparr>"
    then have "nothing_removed w1 w'" by simp
    with n1 show ?thesis by (rule nothing_removed_trans)
  next
    fix k i body r3 pfile
    assume "write_file (w1\<lparr>drawn := k\<rparr>)
              (os_path (path_str (if is_abs pfile then pfile
                                  else PyPath True (cwd w1 @ parts pfile)))) body = (r3, w')"
    then have "nothing_removed (w1\<lparr>drawn := k\<rparr>) w'" by (rule write_file_nothing_removed)
    with nothing_removed_drawn have "nothing_removed w1 w'" by (rule nothing_removed_trans)
    with n1 show ?thesis by (rule nothing_removed_trans)
  }
qed simp

lemma CompModel_call_nothing_removed:
  assumes "CompModel_call w comp_name raw = (r, w')"
  shows "nothing_removed w w'"
  using CompModel_call_world [OF assms] by (auto dest: valid_image_nothing_removed)

section \<open>The writer\<close>

text \<open>The steps of a writer that completes.\<close>

lemma writer_Inr:
  assumes "writer w m = (Inr u, w')"
  shows "\<exists>w2 w3 w4 w5.
           (if is_dir w (cpath_of m) then rmtree w (cpath_of m) else (Inr (), w)) = (Inr (), w2)
         \<and> mkdir w2 (cpath_of m) = (Inr (), w3)
         \<and> (if truthy (image_f m) then shutil_copy w3 (the (image_f m)) (cpath_of m)
             else (Inr (), w3)) = (Inr (), w4)
         \<and> write_file w4 (joinpath (cpath_of m) (Path ''index.md'')) (index_md m) = (Inr (), w5)
         \<and> (if is_dir w5 (Path ''static/components/tmp'')
             then rmtree w5 (Path ''static/components/tmp'') else (Inr (), w5)) = (Inr u, w')"
  using assms unfolding writer_def cpath_of_def Let_def
  by (blast dest!: then_do_Inr_unit)

lemma then_do_assoc:
  "then_do (then_do a k) k' = then_do a (\<lambda>x w. then_do (k x w) k')"
  by (cases a) (simp add: then_do_def split: sum.splits)

lemma writer_write_outputs:
  "writer w m =
     then_do (write_outputs w m)
       (\<lambda>_ w5. if is_dir w5 (Path ''static/components/tmp'')
                then rmtree w5 (Path ''static/components/tmp'') else (Inr (), w5))"
  unfolding writer_def write_outputs_def Let_def then_do_assoc ..

lemma tmp_loc_not_above_cwd: "\<not> prefix (tmp_loc w) (cwd w)"
  by (auto simp: tmp_loc_def prefix_def)

lemma cleanup_effect:
  assumes "(if is_dir w5 (Path ''static/components/tmp'')
             then rmtree w5 (Path ''static/components/tmp'') else (Inr (), w5)) = (Inr u, w')"
  shows "(\<not> is_dir w5 (Path ''static/components/tmp'') \<and> w' = w5)
         \<or> (is_dir w5 (Path ''static/components/tmp'') \<and> fs w5 (tmp_loc w5) = Some Dir
             \<and> w' = w5\<lparr>fs := (\<lambda>x. if prefix (tmp_loc w5) x then None else fs w5 x),
                        trace := trace w5 @ [EvRmtree (tmp_loc w5)]\<rparr>)"
proof (cases "is_dir w5 (Path ''static/components/tmp'')")
  case True
  with assms have "rmtree w5 (Path ''static/components/tmp'') = (Inr u, w')" by simp
  from rmtree_Inr [OF this] obtain q where
    q: "resolve w5 (Path ''static/components/tmp'') = Some q" and d: "fs w5 q = Some Dir"
    and w': "w' = w5\<lparr>fs := (\<lambda>x. if prefix q x then None else fs w5 x),
                       cwd_alive := cwd_alive w5 \<and> \<not> prefix q (cwd w5),
                       trace := trace w5 @ [EvRmtree q]\<rparr>"
    by blast
  from resolve_lex [OF q] have qt: "q = tmp_loc w5" by (simp add: Path_tmp tmp_loc_def)
  have "w5\<lparr>cwd_alive := cwd_alive w5\<rparr> = w5" by simp
  with w' qt tmp_loc_not_above_cwd [of w5]
  have "w' = w5\<lparr>fs := (\<lambda>x. if prefix (tmp_loc w5) x then None else fs w5 x),
                        trace := trace w5 @ [EvRmtree (tmp_loc w5)]\<rparr>"
    by simp
  with True d qt show ?thesis by simp
next
  case False
  with assms show ?thesis by simp
qed

lemma walk_mono:
  assumes "\<forall>x. f x = Some Dir \<longrightarrow> g x = Some Dir"
    and "walk f cur ps = Some q"
  shows "walk g cur ps = Some q"
  using assms(2)
proof (induction ps arbitrary: cur)
  case Nil
  then show ?case by simp
next
  case (Cons c cs)
  from Cons.prems have fc: "f cur = Some Dir" by (auto split: if_splits)
  with assms(1) have gc: "g cur = Some Dir" by blast
  show ?case
  proof (cases "c = ''.''")
    case True
    with Cons fc gc show ?thesis by simp
  next
    case nd: False
    show ?thesis
    proof (cases "c = ''..''")
      case True
      with Cons.prems fc have fb: "f (butlast cur) = Some Dir"
        and r: "walk f (butlast cur) cs = Some q"
        by (auto split: if_splits)
      from fb assms(1) have "g (butlast cur) = Some Dir" by blast
      with True gc Cons.IH [OF r] show ?thesis by simp
    next
      case False
      with nd Cons.prems fc have "walk f (cur @ [c]) cs = Some q" by simp
      from Cons.IH [OF this] nd False gc show ?thesis by simp
    qed
  qed
qed

text \<open>
  What a writer that completes has done. \<open>P\<close> is the location of the output
  directory, \<open>w5\<close> the world when \<open>index.md\<close> has been written, \<open>c\<close> the content
  of the image as it was found.
\<close>

lemma writer_steps:
  assumes ok: "writer w m = (Inr u, w')"
  shows "\<exists>P c w5. resolve w (cpath_of m) = Some P
           \<and> write_outputs w m = (Inr (), w5)
           \<and> (is_dir w (cpath_of m) \<longrightarrow> fs w P = Some Dir)
           \<and> (truthy (image_f m) \<and> is_dir w (cpath_of m) \<longrightarrow>
                 read_file w (os_path (the (image_f m))) = Inr c)
           \<and> fs w5 = (\<lambda>x. if x = P @ [''index.md''] then Some (File (index_md m))
                           else if truthy (image_f m) \<and> x = P @ [basename (the (image_f m))]
                                then Some (File c)
                           else if x = P then Some Dir
                           else if is_dir w (cpath_of m) \<and> prefix P x then None
                           else fs w x)
           \<and> trace w5 = trace w @ (if is_dir w (cpath_of m) then [EvRmtree P] else [])
                         @ [EvMkdir P]
                         @ (if truthy (image_f m)
                            then [EvWrite (P @ [basename (the (image_f m))])] else [])
                         @ [EvWrite (P @ [''index.md''])]
           \<and> cwd w5 = cwd w
           \<and> ((\<not> is_dir w5 (Path ''static/components/tmp'') \<and> w' = w5)
               \<or> (is_dir w5 (Path ''static/components/tmp'') \<and> fs w5 (tmp_loc w) = Some Dir
                   \<and> w' = w5\<lparr>fs := (\<lambda>x. if prefix (tmp_loc w) x then None else fs w5 x),
                              trace := trace w5 @ [EvRmtree (tmp_loc w)]\<rparr>))"
proof -
  let ?cp = "cpath_of m"
  let ?d = "is_dir w ?cp"
  define st where "st = (if is_abs ?cp then [] else cwd w)"
  from writer_Inr [OF ok] obtain w2 w3 w4 w5 where
    s1: "(if ?d then rmtree w ?cp else (Inr (), w)) = (Inr (), w2)"
    and s2: "mkdir w2 ?cp = (Inr (), w3)"
    and s3: "(if truthy (image_f m) then shutil_copy w3 (the (image_f m)) ?cp
              else (Inr (), w3)) = (Inr (), w4)"
    and s4: "write_file w4 (joinpath ?cp (Path ''index.md'')) (index_md m) = (Inr (), w5)"
    and s5: "(if is_dir w5 (Path ''static/components/tmp'')
             then rmtree w5 (Path ''static/components/tmp'') else (Inr (), w5)) = (Inr u, w')"
    by blast
  have wo: "write_outputs w m = (Inr (), w5)"
    using s1 s2 s3 s4 unfolding write_outputs_def cpath_of_def Let_def
    by (simp add: then_do_def)
  have cwd2: "cwd w2 = cwd w" and al2: "cwd_alive w2 \<longrightarrow> cwd_alive w"
    using s1 by (auto split: if_splits dest!: rmtree_Inr)
  from mkdir_Inr [OF s2] obtain P where P2: "resolve w2 ?cp = Some P"
    and n2: "fs w2 P = None"
    and w3': "w3 = w2\<lparr>fs := (fs w2)(P \<mapsto> Dir), trace := trace w2 @ [EvMkdir P]\<rparr>"
    by blast
  from resolve_lex [OF P2] have Plex: "P = lex st (parts ?cp)" by (simp add: st_def cwd2)
  have P: "resolve w ?cp = Some P" and Pd: "?d \<longrightarrow> fs w P = Some Dir"
    and w2: "w2 = (if ?d then w\<lparr>fs := (\<lambda>x. if prefix P x then None else fs w x),
                                   cwd_alive := cwd_alive w \<and> \<not> prefix P (cwd w),
                                   trace := trace w @ [EvRmtree P]\<rparr>
                  else w)"
  proof -
    show "resolve w ?cp = Some P"
    proof (cases ?d)
      case True
      then obtain P' where "resolve w ?cp = Some P'"
        by (auto simp: is_dir_def split: option.splits)
      with resolve_lex [OF this] show ?thesis by (simp add: Plex st_def)
    next
      case False
      with s1 P2 show ?thesis by simp
    qed
    then show "?d \<longrightarrow> fs w P = Some Dir" by (simp add: is_dir_def)
    show "w2 = (if ?d then w\<lparr>fs := (\<lambda>x. if prefix P x then None else fs w x),
                                   cwd_alive := cwd_alive w \<and> \<not> prefix P (cwd w),
                                   trace := trace w @ [EvRmtree P]\<rparr>
                  else w)"
    proof (cases ?d)
      case True
      with s1 have "rmtree w ?cp = (Inr (), w2)" by simp
      from rmtree_Inr [OF this] \<open>resolve w ?cp = Some P\<close> True show ?thesis by auto
    next
      case False
      with s1 show ?thesis by simp
    qed
  qed
  define F3 where "F3 = (\<lambda>x. if x = P then Some Dir
                              else if ?d \<and> prefix P x then None else fs w x)"
  have fs3: "fs w3 = F3"
    using n2 by (auto simp: w3' w2 F3_def fun_eq_iff)
  have tr3: "trace w3 = trace w @ (if ?d then [EvRmtree P] else []) @ [EvMkdir P]"
    by (simp add: w3' w2)
  have cwd3: "cwd w3 = cwd w" by (simp add: w3' cwd2)
  have al3: "cwd_alive w3 \<longrightarrow> cwd_alive w" using al2 by (simp add: w3')
  have dir3: "fs w3 P = Some Dir" by (simp add: fs3 F3_def)
  let ?b = "basename (the (image_f m))"
  have "\<exists>c. (truthy (image_f m) \<and> ?d \<longrightarrow> read_file w (os_path (the (image_f m))) = Inr c)
            \<and> fs w4 = (if truthy (image_f m) then F3(P @ [?b] \<mapsto> File c) else F3)
            \<and> trace w4 = trace w3 @ (if truthy (image_f m) then [EvWrite (P @ [?b])] else [])
            \<and> cwd w4 = cwd w"
  proof (cases "truthy (image_f m)")
    case False
    with s3 fs3 cwd3 show ?thesis by auto
  next
    case True
    with s3 have "shutil_copy w3 (the (image_f m)) ?cp = (Inr (), w4)" by simp
    from shutil_copy_Inr [OF this] obtain c where
      rd3: "read_file w3 (os_path (the (image_f m))) = Inr c" and
      wr: "write_file w3 (if is_dir w3 ?cp then os_join ?cp ?b else ?cp) c = (Inr (), w4)"
      by blast
    from write_file_Inr [OF wr] obtain q where
      q: "resolve w3 (if is_dir w3 ?cp then os_join ?cp ?b else ?cp) = Some q"
      and nd: "fs w3 q \<noteq> Some Dir"
      and w4': "w4 = w3\<lparr>fs := (fs w3)(q \<mapsto> File c), trace := trace w3 @ [EvWrite q]\<rparr>"
      by blast
    have "is_dir w3 ?cp"
    proof (rule ccontr)
      assume n: "\<not> is_dir w3 ?cp"
      with q have "resolve w3 ?cp = Some q" by simp
      from resolve_lex [OF this] have "q = P" by (simp add: Plex st_def cwd3)
      with nd dir3 show False by simp
    qed
    with q have "resolve w3 (os_join ?cp ?b) = Some q" by simp
    from resolve_walk [OF this]
    have "walk (fs w3) st (parts ?cp @ [if ?b = [] then ''.'' else ?b]) = Some q"
      by (auto simp: os_join_parts st_def cwd3 split: if_splits)
    from walk_snoc_Some [OF this] nd dir3 have qb: "q = P @ [?b]"
      by (auto simp: Plex split: if_splits)
    have "read_file w (os_path (the (image_f m))) = Inr c" if d: ?d
    proof -
      let ?s = "os_path (the (image_f m))"
      from rd3 obtain qs where qs: "resolve w3 ?s = Some qs" and fq: "fs w3 qs = Some (File c)"
        by (auto simp: read_file_def split: option.splits node.splits)
      have mono: "\<forall>x. fs w3 x = Some Dir \<longrightarrow> fs w x = Some Dir"
        using Pd d by (auto simp: fs3 F3_def split: if_splits)
      from resolve_walk [OF qs]
      have "walk (fs w3) (if is_abs ?s then [] else cwd w) (parts ?s) = Some qs"
        unfolding cwd3 .
      from walk_mono [OF mono this] resolve_alive [OF qs] al3
      have "resolve w ?s = Some qs" by (auto simp: resolve_def)
      moreover from fq have "fs w qs = Some (File c)"
        by (auto simp: fs3 F3_def split: if_splits)
      ultimately show ?thesis by (simp add: read_file_def)
    qed
    with True w4' qb fs3 cwd3 show ?thesis by auto
  qed
  then obtain c where
    rd: "truthy (image_f m) \<and> ?d \<longrightarrow> read_file w (os_path (the (image_f m))) = Inr c"
    and fs4: "fs w4 = (if truthy (image_f m) then F3(P @ [?b] \<mapsto> File c) else F3)"
    and tr4: "trace w4 = trace w3 @ (if truthy (image_f m) then [EvWrite (P @ [?b])] else [])"
    and cwd4: "cwd w4 = cwd w"
    by blast
  from write_file_Inr [OF s4] obtain qi where
    qi: "resolve w4 (joinpath ?cp (Path ''index.md'')) = Some qi"
    and w5': "w5 = w4\<lparr>fs := (fs w4)(qi \<mapsto> File (index_md m)), trace := trace w4 @ [EvWrite qi]\<rparr>"
    by blast
  from resolve_lex [OF qi] have qi_eq: "qi = P @ [''index.md'']"
    by (simp add: joinpath_def Path_index_md lex_append Plex st_def cwd4)
  have cwd5: "cwd w5 = cwd w" using w5' cwd4 by simp
  have fs5: "fs w5 = (\<lambda>x. if x = P @ [''index.md''] then Some (File (index_md m))
                           else if truthy (image_f m) \<and> x = P @ [?b] then Some (File c)
                           else if x = P then Some Dir
                           else if ?d \<and> prefix P x then None
                           else fs w x)"
    by (auto simp: w5' qi_eq fs4 F3_def fun_eq_iff)
  have tr5: "trace w5 = trace w @ (if ?d then [EvRmtree P] else []) @ [EvMkdir P]
                         @ (if truthy (image_f m) then [EvWrite (P @ [?b])] else [])
                         @ [EvWrite (P @ [''index.md''])]"
    by (simp add: w5' qi_eq tr4 tr3)
  have tl: "tmp_loc w5 = tmp_loc w" by (simp add: tmp_loc_def cwd5)
  from cleanup_effect [OF s5]
  have fin: "(\<not> is_dir w5 (Path ''static/components/tmp'') \<and> w' = w5)
               \<or> (is_dir w5 (Path ''static/components/tmp'') \<and> fs w5 (tmp_loc w) = Some Dir
                   \<and> w' = w5\<lparr>fs := (\<lambda>x. if prefix (tmp_loc w) x then None else fs w5 x),
                              trace := trace w5 @ [EvRmtree (tmp_loc w)]\<rparr>)"
    by (simp add: tl)
  from P wo Pd rd fs5 tr5 cwd5 fin show ?thesis by blast
qed

subsection \<open>Replacing an existing output directory\<close>

text \<open>
  Claim C7 says that for every component an output directory \<open>content/components/title\<close>
  that already exists when the writer runs is first deleted recursively and then
  recreated, so that the final directory contains only the newly written \<open>index.md\<close>
  and, if the record has an image, the copied image, with nothing retained from before.
  This does not hold of every component. Below are three runs over one component whose
  output directory exists:
  \<^item> the title \<open>..\<close> names the directory \<open>content\<close>: it is emptied, \<open>os.rmdir\<close> refuses
    the path, the run stops with an \<open>OSError\<close>, and nothing is recreated;
  \<^item> the image lies in the old output directory: validation finds it, the writer
    deletes it with the directory, the copy fails, and the recreated directory holds
    neither \<open>index.md\<close> nor the image;
  \<^item> the title \<open>../../static/components/tmp\<close> names the temporary directory: the run
    completes, and its last step removes the directory it has just written.
\<close>

theorem C7_counterexample:
  "is_dir rerun_world (joinpath (Path ''content/components'') (Path ''..''))
   \<and> fst (main rerun_world [(''..'', JObj record_plain)]) = Inl OSError
   \<and> fs (snd (main rerun_world [(''..'', JObj record_plain)])) [''w'', ''content''] = Some Dir
   \<and> fs (snd (main rerun_world [(''..'', JObj record_plain)]))
        [''w'', ''content'', ''components''] = None
   \<and> trace (snd (main rerun_world [(''..'', JObj record_plain)])) = []
   \<and> is_dir stale_image_world (joinpath (Path ''content/components'') (Path ''Foo''))
   \<and> fst (main stale_image_world [(''Foo'', JObj record_with_stale_image)]) = Inl OSError
   \<and> trace (snd (main stale_image_world [(''Foo'', JObj record_with_stale_image)])) =
        [EvRmtree [''w'', ''content'', ''components'', ''Foo''],
         EvMkdir [''w'', ''content'', ''components'', ''Foo'']]
   \<and> fs (snd (main stale_image_world [(''Foo'', JObj record_with_stale_image)]))
        [''w'', ''content'', ''components'', ''Foo'', ''index.md''] = None
   \<and> fs (snd (main stale_image_world [(''Foo'', JObj record_with_stale_image)]))
        [''w'', ''content'', ''components'', ''Foo'', ''logo.png''] = None
   \<and> is_dir leftover_world
        (joinpath (Path ''content/components'') (Path ''../../static/components/tmp''))
   \<and> fst (main leftover_world [(''../../static/components/tmp'', JObj record_plain)]) = Inr ()
   \<and> trace (snd (main leftover_world [(''../../static/components/tmp'', JObj record_plain)])) =
        [EvRmtree [''w'', ''static'', ''components'', ''tmp''],
         EvMkdir [''w'', ''static'', ''components'', ''tmp''],
         EvWrite [''w'', ''static'', ''components'', ''tmp'', ''index.md''],
         EvRmtree [''w'', ''static'', ''components'', ''tmp'']]
   \<and> fs (snd (main leftover_world [(''../../static/components/tmp'', JObj record_plain)]))
        [''w'', ''static'', ''components'', ''tmp''] = None"
  by code_simp

text \<open>
  Claim C7, amended. For every component whose writer completes: if the output
  directory \<open>content/components/title\<close> already exists when the writer runs, then the
  first two changes the writer makes are the recursive deletion of that directory and
  its re-creation; the image, if the record has one, was readable before the deletion;
  and, unless the directory lies inside \<open>static/components/tmp\<close>, the final directory
  exists and holds exactly the newly written \<open>index.md\<close> and, if the record has an
  image, the copy of that image under its base name (\<open>index.md\<close> itself when the image
  has that name), with nothing retained from before. In the statement, \<open>P\<close> is the
  location of the directory and \<open>c\<close> the content of the image.
\<close>

theorem C7_existing_directory_replaced:
  assumes d: "is_dir w (cpath_of m)" and ok: "writer w m = (Inr u, w')"
  shows "\<exists>P c. resolve w (cpath_of m) = Some P
           \<and> (\<exists>rest. trace w' = trace w @ EvRmtree P # EvMkdir P # rest)
           \<and> (truthy (image_f m) \<longrightarrow> read_file w (os_path (the (image_f m))) = Inr c)
           \<and> (\<not> prefix (tmp_loc w) P \<longrightarrow>
                 fs w' P = Some Dir
                 \<and> (\<forall>q. strict_prefix P q \<longrightarrow>
                       fs w' q =
                         (if q = P @ [''index.md''] then Some (File (index_md m))
                          else if truthy (image_f m) \<and> q = P @ [basename (the (image_f m))]
                               then Some (File c)
                          else None)))"
proof -
  let ?b = "basename (the (image_f m))"
  from writer_steps [OF ok] obtain P c w5 where
    P: "resolve w (cpath_of m) = Some P"
    and rd0: "truthy (image_f m) \<and> is_dir w (cpath_of m) \<longrightarrow>
                 read_file w (os_path (the (image_f m))) = Inr c"
    and fs50: "fs w5 = (\<lambda>x. if x = P @ [''index.md''] then Some (File (index_md m))
                           else if truthy (image_f m) \<and> x = P @ [?b] then Some (File c)
                           else if x = P then Some Dir
                           else if is_dir w (cpath_of m) \<and> prefix P x then None
                           else fs w x)"
    and tr50: "trace w5 = trace w @ (if is_dir w (cpath_of m) then [EvRmtree P] else [])
                         @ [EvMkdir P]
                         @ (if truthy (image_f m) then [EvWrite (P @ [?b])] else [])
                         @ [EvWrite (P @ [''index.md''])]"
    and fin: "(\<not> is_dir w5 (Path ''static/components/tmp'') \<and> w' = w5)
               \<or> (is_dir w5 (Path ''static/components/tmp'') \<and> fs w5 (tmp_loc w) = Some Dir
                   \<and> w' = w5\<lparr>fs := (\<lambda>x. if prefix (tmp_loc w) x then None else fs w5 x),
                              trace := trace w5 @ [EvRmtree (tmp_loc w)]\<rparr>)"
    by blast
  from rd0 d have rd: "truthy (image_f m) \<longrightarrow> read_file w (os_path (the (image_f m))) = Inr c"
    by simp
  from fs50 d have fs5: "fs w5 = (\<lambda>x. if x = P @ [''index.md''] then Some (File (index_md m))
                           else if truthy (image_f m) \<and> x = P @ [?b] then Some (File c)
                           else if x = P then Some Dir
                           else if prefix P x then None
                           else fs w x)"
    by (simp cong: if_cong)
  from tr50 d have tr5: "trace w5 = trace w @ [EvRmtree P] @ [EvMkdir P]
                         @ (if truthy (image_f m) then [EvWrite (P @ [?b])] else [])
                         @ [EvWrite (P @ [''index.md''])]"
    by simp
  have tr: "\<exists>rest. trace w' = trace w @ EvRmtree P # EvMkdir P # rest"
    using fin tr5 by auto
  have dir5: "fs w5 P = Some Dir" by (simp add: fs5)
  have below5: "fs w5 q = (if q = P @ [''index.md''] then Some (File (index_md m))
                           else if truthy (image_f m) \<and> q = P @ [?b] then Some (File c)
                           else None)"
    if "strict_prefix P q" for q
    using that by (auto simp: fs5 strict_prefix_def)
  have keep: "fs w' P = Some Dir
              \<and> (\<forall>q. strict_prefix P q \<longrightarrow>
                     fs w' q = (if q = P @ [''index.md''] then Some (File (index_md m))
                                else if truthy (image_f m) \<and> q = P @ [?b] then Some (File c)
                                else None))"
    if np: "\<not> prefix (tmp_loc w) P"
  proof (cases "is_dir w5 (Path ''static/components/tmp'')")
    case False
    with fin have "w' = w5" by auto
    with dir5 below5 show ?thesis by simp
  next
    case True
    with fin have td: "fs w5 (tmp_loc w) = Some Dir"
      and w': "fs w' = (\<lambda>x. if prefix (tmp_loc w) x then None else fs w5 x)"
      by auto
    have nb: "\<not> strict_prefix P (tmp_loc w)"
    proof
      assume "strict_prefix P (tmp_loc w)"
      from below5 [OF this] td show False by (auto split: if_splits)
    qed
    have "\<not> prefix (tmp_loc w) q" if sp: "strict_prefix P q" for q
    proof
      assume "prefix (tmp_loc w) q"
      with sp have "prefix (tmp_loc w) P \<or> prefix P (tmp_loc w)"
        by (auto simp: strict_prefix_def dest: prefix_same_cases)
      with np nb show False by (auto simp: strict_prefix_def)
    qed
    with np dir5 below5 show ?thesis by (simp add: w')
  qed
  from P tr rd keep show ?thesis by blast
qed

theorem C7_existing_directory_witness:
  "is_dir rerun_world (cpath_of model_with_image)
   \<and> fst (writer rerun_world model_with_image) = Inr ()
   \<and> fs rerun_world [''w'', ''content'', ''components'', ''Foo'', ''old.md''] = Some (File ''old'')
   \<and> fs (snd (writer rerun_world model_with_image))
         [''w'', ''content'', ''components'', ''Foo''] = Some Dir
   \<and> fs (snd (writer rerun_world model_with_image))
         [''w'', ''content'', ''components'', ''Foo'', ''old.md''] = None
   \<and> fs (snd (writer rerun_world model_with_image))
         [''w'', ''content'', ''components'', ''Foo'', ''logo.png''] = Some (File ''PNG'')
   \<and> fs (snd (writer rerun_world model_with_image))
         [''w'', ''content'', ''components'', ''Foo'', ''index.md'']
       = Some (File (index_md model_with_image))
   \<and> take 2 (trace (snd (writer rerun_world model_with_image)))
       = [EvRmtree [''w'', ''content'', ''components'', ''Foo''],
          EvMkdir [''w'', ''content'', ''components'', ''Foo'']]"
proof -
  let ?w' = "snd (writer rerun_world model_with_image)"
  let ?P = "[''w'', ''content'', ''components'', ''Foo'']"
  let ?cp = "cpath_of model_with_image"
  have a: "is_dir rerun_world ?cp" by code_simp
  have b: "fst (writer rerun_world model_with_image) = Inr ()" by code_simp
  then have ok: "writer rerun_world model_with_image = (Inr (), ?w')"
    by (cases "writer rerun_world model_with_image") simp
  have o: "fs rerun_world (?P @ [''old.md'']) = Some (File ''old'')" by code_simp
  have r: "resolve rerun_world ?cp = Some ?P" by code_simp
  have bn: "basename (the (image_f model_with_image)) = ''logo.png''" by code_simp
  have t: "truthy (image_f model_with_image)" by code_simp
  have rd: "read_file rerun_world (os_path (the (image_f model_with_image))) = Inr ''PNG''"
    by code_simp
  have tl: "\<not> prefix (tmp_loc rerun_world) ?P" by code_simp
  have tr0: "trace rerun_world = []" by code_simp
  from C7_existing_directory_replaced [OF a ok] r t rd tl obtain rest where
    tr: "trace ?w' = trace rerun_world @ EvRmtree ?P # EvMkdir ?P # rest"
    and dir: "fs ?w' ?P = Some Dir"
    and below: "\<forall>q. strict_prefix ?P q \<longrightarrow>
                  fs ?w' q = (if q = ?P @ [''index.md''] then Some (File (index_md model_with_image))
                              else if q = ?P @ [''logo.png''] then Some (File ''PNG'')
                              else None)"
    by (auto simp: bn)
  have s1: "strict_prefix ?P (?P @ [''old.md''])" by simp
  have s2: "strict_prefix ?P (?P @ [''logo.png''])" by simp
  have s3: "strict_prefix ?P (?P @ [''index.md''])" by simp
  from below s1 have n: "fs ?w' (?P @ [''old.md'']) = None" by simp
  from below s2 have l: "fs ?w' (?P @ [''logo.png'']) = Some (File ''PNG'')" by simp
  from below s3 have i: "fs ?w' (?P @ [''index.md'']) = Some (File (index_md model_with_image))"
    by simp
  from tr tr0 have k: "take 2 (trace ?w') = [EvRmtree ?P, EvMkdir ?P]" by simp
  from a b o dir n l i k show ?thesis by simp
qed

section \<open>The temporary directory\<close>

lemma loop_body_Inr:
  assumes "loop_body w c = (Inr u, w')"
  shows "\<exists>m w1. CompModel_call w (fst c) (snd c) = (Inr m, w1) \<and> writer w1 m = (Inr u, w')"
  using assms unfolding loop_body_def by (blast dest!: then_do_Inr)

text \<open>
  One iteration that completes: validation removes nothing, the writer writes the
  output, \<open>index.md\<close> last, and then removes the temporary directory if it is there.
\<close>

lemma loop_body_steps:
  assumes "loop_body w c = (Inr u, w')"
  shows "\<exists>m w1 w5 P.
           CompModel_call w (fst c) (snd c) = (Inr m, w1)
         \<and> nothing_removed w w1
         \<and> write_outputs w1 m = (Inr (), w5)
         \<and> resolve w1 (cpath_of m) = Some P
         \<and> trace w5 = trace w1 @ (if is_dir w1 (cpath_of m) then [EvRmtree P] else [])
                         @ [EvMkdir P]
                         @ (if truthy (image_f m)
                            then [EvWrite (P @ [basename (the (image_f m))])] else [])
                         @ [EvWrite (P @ [''index.md''])]
         \<and> w' = (if is_dir w5 (Path ''static/components/tmp'')
                 then w5\<lparr>fs := (\<lambda>x. if prefix (tmp_loc w5) x then None else fs w5 x),
                         trace := trace w5 @ [EvRmtree (tmp_loc w5)]\<rparr>
                 else w5)
         \<and> \<not> is_dir w' (Path ''static/components/tmp'')"
proof -
  from loop_body_Inr [OF assms] obtain m w1 where
    v: "CompModel_call w (fst c) (snd c) = (Inr m, w1)" and wr: "writer w1 m = (Inr u, w')"
    by blast
  from CompModel_call_nothing_removed [OF v] have nr: "nothing_removed w w1" .
  from writer_steps [OF wr] obtain P w5 where
    P: "resolve w1 (cpath_of m) = Some P"
    and wo: "write_outputs w1 m = (Inr (), w5)"
    and tr5: "trace w5 = trace w1 @ (if is_dir w1 (cpath_of m) then [EvRmtree P] else [])
                         @ [EvMkdir P]
                         @ (if truthy (image_f m)
                            then [EvWrite (P @ [basename (the (image_f m))])] else [])
                         @ [EvWrite (P @ [''index.md''])]"
    and cwd5: "cwd w5 = cwd w1"
    and fin: "(\<not> is_dir w5 (Path ''static/components/tmp'') \<and> w' = w5)
               \<or> (is_dir w5 (Path ''static/components/tmp'') \<and> fs w5 (tmp_loc w1) = Some Dir
                   \<and> w' = w5\<lparr>fs := (\<lambda>x. if prefix (tmp_loc w1) x then None else fs w5 x),
                              trace := trace w5 @ [EvRmtree (tmp_loc w1)]\<rparr>)"
    by blast
  have tl: "tmp_loc w1 = tmp_loc w5" by (simp add: tmp_loc_def cwd5)
  from fin have w': "w' = (if is_dir w5 (Path ''static/components/tmp'')
                 then w5\<lparr>fs := (\<lambda>x. if prefix (tmp_loc w5) x then None else fs w5 x),
                         trace := trace w5 @ [EvRmtree (tmp_loc w5)]\<rparr>
                 else w5)"
    unfolding tl by auto
  have gone: "\<not> is_dir w' (Path ''static/components/tmp'')"
  proof (cases "is_dir w5 (Path ''static/components/tmp'')")
    case False
    with w' show ?thesis by simp
  next
    case True
    with w' have e: "w' = w5\<lparr>fs := (\<lambda>x. if prefix (tmp_loc w5) x then None else fs w5 x),
                         trace := trace w5 @ [EvRmtree (tmp_loc w5)]\<rparr>"
      by simp
    show ?thesis
    proof
      assume "is_dir w' (Path ''static/components/tmp'')"
      then obtain q where q: "resolve w' (Path ''static/components/tmp'') = Some q"
        and d: "fs w' q = Some Dir"
        by (auto simp: is_dir_def split: option.splits)
      from resolve_lex [OF q] have "q = tmp_loc w5" by (simp add: Path_tmp tmp_loc_def e)
      with d show False by (simp add: e)
    qed
  qed
  from v nr wo P tr5 w' gone show ?thesis by blast
qed

lemma main_loop_tmp_absent:
  assumes "main_loop w cs = (Inr u, w')" and "cs \<noteq> []"
  shows "\<not> is_dir w' (Path ''static/components/tmp'')"
  using assms
proof (induction cs arbitrary: w)
  case Nil
  then show ?case by simp
next
  case (Cons c cs)
  from Cons.prems(1) obtain w1 where b: "loop_body w c = (Inr (), w1)"
    and r: "main_loop w1 cs = (Inr u, w')"
    by (auto split: prod.splits sum.splits)
  show ?case
  proof (cases "cs = []")
    case True
    with r have "w' = w1" by simp
    with loop_body_steps [OF b] show ?thesis by blast
  next
    case False
    from Cons.IH [OF r False] show ?thesis .
  qed
qed

text \<open>
  Claim C1 says that the temporary directory \<open>static/components/tmp\<close> is deleted exactly
  once, after every component has been processed and not before the last component's
  output is written. It is not: the deletion is a step of every iteration. In a run
  over two components with remote images the directory is deleted twice, the first
  time before anything is written for the second component; and a run over an empty
  mapping deletes nothing, so that a directory left behind is still there at the end.
\<close>

theorem C1_counterexample:
  "fst (main example_world two_components) = Inr ()
   \<and> trace (snd (main example_world two_components)) =
       [EvMkdir [''w'', ''static'', ''components'', ''tmp''],
        EvWrite [''w'', ''static'', ''components'', ''tmp'', ''00000000-0000-4000-8000-000000000000.png''],
        EvMkdir [''w'', ''content'', ''components'', ''Foo''],
        EvWrite [''w'', ''content'', ''components'', ''Foo'', ''00000000-0000-4000-8000-000000000000.png''],
        EvWrite [''w'', ''content'', ''components'', ''Foo'', ''index.md''],
        EvRmtree [''w'', ''static'', ''components'', ''tmp''],
        EvMkdir [''w'', ''static'', ''components'', ''tmp''],
        EvWrite [''w'', ''static'', ''components'', ''tmp'', ''00000000-0000-4000-8000-000000000000.png''],
        EvMkdir [''w'', ''content'', ''components'', ''Bar''],
        EvWrite [''w'', ''content'', ''components'', ''Bar'', ''00000000-0000-4000-8000-000000000000.png''],
        EvWrite [''w'', ''content'', ''components'', ''Bar'', ''index.md''],
        EvRmtree [''w'', ''static'', ''components'', ''tmp'']]
   \<and> count_list (trace (snd (main example_world two_components)))
        (EvRmtree [''w'', ''static'', ''components'', ''tmp'']) = 2
   \<and> is_dir leftover_world (Path ''static/components/tmp'')
   \<and> fst (main leftover_world []) = Inr ()
   \<and> trace (snd (main leftover_world [])) = []
   \<and> is_dir (snd (main leftover_world [])) (Path ''static/components/tmp'')"
  by code_simp

text \<open>
  Claim C1, amended. The temporary directory \<open>static/components/tmp\<close> is deleted not
  once for the batch but at the end of each component's iteration. In every completed
  run, for each component \<open>c\<close> of the mapping: the components before it have been
  processed; the validation of \<open>c\<close> removes nothing; the writer then writes the output
  of \<open>c\<close>, its changes being, in this order, the deletion of the output directory if it
  existed, its creation, the copy of the image if there is one, and the writing of
  \<open>index.md\<close>; then, as the last change of the iteration and only if
  \<open>static/components/tmp\<close> is a directory at that point, that directory is removed with
  all it holds; that is the whole iteration, after which the directory is absent; the
  remaining components are processed from there, and at the end of the run it is
  absent. In the statement,
  \<open>w0\<close> is the world before the iteration of \<open>c\<close>, \<open>w1\<close> the world after its
  validation, \<open>w5\<close> the world when \<open>index.md\<close> has been written, and \<open>wc\<close> the world
  after the iteration.
\<close>

theorem C1_tmp_deleted_after_each_component:
  assumes "main_loop w (pre @ c # post) = (Inr u, w')"
  shows "\<exists>w0 m w1 w5 wc P.
           main_loop w pre = (Inr (), w0)
         \<and> CompModel_call w0 (fst c) (snd c) = (Inr m, w1)
         \<and> nothing_removed w0 w1
         \<and> write_outputs w1 m = (Inr (), w5)
         \<and> resolve w1 (cpath_of m) = Some P
         \<and> trace w5 = trace w1 @ (if is_dir w1 (cpath_of m) then [EvRmtree P] else [])
                         @ [EvMkdir P]
                         @ (if truthy (image_f m)
                            then [EvWrite (P @ [basename (the (image_f m))])] else [])
                         @ [EvWrite (P @ [''index.md''])]
         \<and> wc = (if is_dir w5 (Path ''static/components/tmp'')
                 then w5\<lparr>fs := (\<lambda>x. if prefix (tmp_loc w5) x then None else fs w5 x),
                         trace := trace w5 @ [EvRmtree (tmp_loc w5)]\<rparr>
                 else w5)
         \<and> loop_body w0 c = (Inr (), wc)
         \<and> \<not> is_dir wc (Path ''static/components/tmp'')
         \<and> main_loop wc post = (Inr u, w')
         \<and> \<not> is_dir w' (Path ''static/components/tmp'')"
proof -
  from assms obtain w0 where pre: "main_loop w pre = (Inr (), w0)"
    and rest: "main_loop w0 (c # post) = (Inr u, w')"
    by (auto simp: main_loop_append split: prod.splits sum.splits)
  from rest obtain wc where b: "loop_body w0 c = (Inr (), wc)"
    and r: "main_loop wc post = (Inr u, w')"
    by (auto split: prod.splits sum.splits)
  from main_loop_tmp_absent [OF rest] have fin: "\<not> is_dir w' (Path ''static/components/tmp'')"
    by simp
  from loop_body_steps [OF b] pre b r fin show ?thesis by blast
qed

theorem C1_tmp_deleted_witness:
  "fst (main_loop example_world (first_component @ (''Bar'', JObj record_with_png_url) # [])) = Inr ()
   \<and> \<not> is_dir (snd (main_loop example_world
                       (first_component @ (''Bar'', JObj record_with_png_url) # [])))
              (Path ''static/components/tmp'')
   \<and> is_dir (snd (CompModel_call (snd (main_loop example_world first_component))
                    ''Bar'' (JObj record_with_png_url)))
            (Path ''static/components/tmp'')
   \<and> last (trace (snd (main_loop example_world
                          (first_component @ (''Bar'', JObj record_with_png_url) # []))))
       = EvRmtree [''w'', ''static'', ''components'', ''tmp'']
   \<and> last (butlast (trace (snd (main_loop example_world
                          (first_component @ (''Bar'', JObj record_with_png_url) # [])))))
       = EvWrite [''w'', ''content'', ''components'', ''Bar'', ''index.md'']"
proof -
  let ?c = "(''Bar'', JObj record_with_png_url)"
  let ?cs = "first_component @ ?c # []"
  let ?w' = "snd (main_loop example_world ?cs)"
  let ?w0 = "snd (main_loop example_world first_component)"
  let ?v = "CompModel_call ?w0 ''Bar'' (JObj record_with_png_url)"
  let ?m = "projr (fst ?v)"
  let ?w5 = "snd (write_outputs (snd ?v) ?m)"
  let ?tmp = "Path ''static/components/tmp''"
  have a: "fst (main_loop example_world ?cs) = Inr ()" by code_simp
  then have ok: "main_loop example_world ?cs = (Inr (), ?w')"
    by (cases "main_loop example_world ?cs") simp
  have d1: "is_dir (snd ?v) ?tmp" by code_simp
  have d5: "is_dir ?w5 ?tmp" by code_simp
  have t5: "tmp_loc ?w5 = [''w'', ''static'', ''components'', ''tmp'']" by code_simp
  have r: "resolve (snd ?v) (cpath_of ?m) = Some [''w'', ''content'', ''components'', ''Bar'']"
    by code_simp
  from C1_tmp_deleted_after_each_component [OF ok] obtain w0 m w1 w5 wc P where
    pre: "main_loop example_world first_component = (Inr (), w0)"
    and v: "CompModel_call w0 (fst ?c) (snd ?c) = (Inr m, w1)"
    and wo: "write_outputs w1 m = (Inr (), w5)"
    and P: "resolve w1 (cpath_of m) = Some P"
    and tr5: "trace w5 = trace w1 @ (if is_dir w1 (cpath_of m) then [EvRmtree P] else [])
                         @ [EvMkdir P]
                         @ (if truthy (image_f m)
                            then [EvWrite (P @ [basename (the (image_f m))])] else [])
                         @ [EvWrite (P @ [''index.md''])]"
    and wc: "wc = (if is_dir w5 ?tmp
                 then w5\<lparr>fs := (\<lambda>x. if prefix (tmp_loc w5) x then None else fs w5 x),
                         trace := trace w5 @ [EvRmtree (tmp_loc w5)]\<rparr>
                 else w5)"
    and post: "main_loop wc [] = (Inr (), ?w')"
    and gone: "\<not> is_dir ?w' ?tmp"
    by blast
  from pre have w0: "w0 = ?w0" by simp
  from v w0 have m: "m = ?m" and w1: "w1 = snd ?v" by simp_all
  from wo m w1 have w5: "w5 = ?w5" by simp
  from post have e: "?w' = wc" by simp
  from P r m w1 have Peq: "P = [''w'', ''content'', ''components'', ''Bar'']" by simp
  from wc d5 w5 t5 have tr: "trace wc = trace w5 @ [EvRmtree [''w'', ''static'', ''components'', ''tmp'']]"
    by simp
  from tr have l: "last (trace wc) = EvRmtree [''w'', ''static'', ''components'', ''tmp'']"
    by simp
  from tr tr5 Peq have l2: "last (butlast (trace wc)) = EvWrite [''w'', ''content'', ''components'', ''Bar'', ''index.md'']"
    by (simp add: butlast_append)
  from a gone d1 l l2 show ?thesis unfolding e by simp
qed

section \<open>A failed validation\<close>

subsection \<open>What the operations leave alone\<close>

lemma same_env_refl [simp]: "same_env w w"
  by (simp add: same_env_def)






subsection \<open>The string of an absolute path leads back to its parts\<close>







subsection \<open>Validation changes the file system only inside the temporary directory\<close>

lemma tmp_only_refl [simp]: "tmp_only w w"
  by (simp add: tmp_only_def)










subsection \<open>The loop\<close>










end
